theory Spec2Isabelle
  imports Main "HOL-Library.AList"
begin

section \<open>Fetched documents\<close>

text \<open>
  A fetched document is a tree of nodes. An element carries its tag (the lower-case
  local name the HTML parser gives it), the tokens of its class attribute
  (\<open>classList\<close>) and its remaining attributes as an association list, in which
  \<open>getAttribute\<close> reads the first entry of a name and \<open>setAttribute\<close> overwrites it.
  The exceptions that the calls of the source can throw are values of \<open>error\<close>.
\<close>

datatype error = TypeError | URIError

record element =
  tag :: string
  classes :: "string list"
  attributes :: "(string \<times> string) list"

datatype node = Text string | Element element "node list"

type_synonym htmlelement = "element \<times> node list"

definition getAttribute :: "element \<Rightarrow> string \<Rightarrow> string option" where
  "getAttribute el key = map_of (attributes el) key"

definition setAttribute :: "string \<Rightarrow> string \<Rightarrow> element \<Rightarrow> element" where
  "setAttribute key v el = el\<lparr>attributes := AList.update key v (attributes el)\<rparr>"

definition classList_contains :: "string \<Rightarrow> htmlelement \<Rightarrow> bool" where
  "classList_contains c el = (c \<in> set (classes (fst el)))"

definition instanceof_HTMLHeadingElement :: "htmlelement \<Rightarrow> bool" where
  "instanceof_HTMLHeadingElement el =
     (tag (fst el) \<in> set [''h1'', ''h2'', ''h3'', ''h4'', ''h5'', ''h6''])"

definition instanceof_HTMLAnchorElement :: "htmlelement \<Rightarrow> bool" where
  "instanceof_HTMLAnchorElement el = (tag (fst el) = ''a'')"

fun textContent :: "node \<Rightarrow> string" where
  "textContent (Text s) = s"
| "textContent (Element e ns) = concat (map textContent ns)"

text \<open>
  The element children of a node list: the chain that repeated
  \<open>nextElementSibling\<close> walks, nearest sibling first.
\<close>

fun element_siblings :: "node list \<Rightarrow> htmlelement list" where
  "element_siblings [] = []"
| "element_siblings (Text s # ns) = element_siblings ns"
| "element_siblings (Element e ch # ns) = (e, ch) # element_siblings ns"

text \<open>
  What \<open>extract\<close> reads of its argument: the element itself, its
  \<open>nextElementSibling\<close> chain, and its \<open>parentElement\<close> (if any) with the
  parent's own \<open>nextElementSibling\<close> chain.
\<close>

record target =
  headline :: htmlelement
  nextSiblings :: "htmlelement list"
  parentElement :: "(htmlelement \<times> htmlelement list) option"

section \<open>Content extraction\<close>

text \<open>
  \<open>nextElements\<close> (lines 118--129): the loop runs while there is a next sibling and
  the predicate holds of it, so it stops at the first sibling that fails it.
\<close>

fun nextElements :: "(htmlelement \<Rightarrow> bool) \<Rightarrow> htmlelement list \<Rightarrow> htmlelement list" where
  "nextElements predicate [] = []"
| "nextElements predicate (nextElement # rest) =
     (if predicate nextElement then nextElement # nextElements predicate rest else [])"

definition default_predicate :: "htmlelement \<Rightarrow> bool" where
  "default_predicate el =
     (\<not> (instanceof_HTMLHeadingElement el \<or> classList_contains ''doc'' el))"

definition doc_predicate :: "htmlelement \<Rightarrow> bool" where
  "doc_predicate el =
     (classList_contains ''doc-contents'' el \<or> classList_contains ''doc-signature'' el)"

definition newHeading :: "htmlelement \<Rightarrow> htmlelement" where
  "newHeading hl = (\<lparr>tag = ''h3'', classes = [], attributes = []\<rparr>, snd hl)"

text \<open>
  The condition of line 103, \<open>headline instanceof HTMLAnchorElement &&
  headline.textContent === ""\<close>, is \<open>bare_anchor\<close>.
  \<open>extract\<close> (lines 96--116; named \<open>extract_els\<close> here, \<open>extract\<close> being a
  command of Isabelle). The non-null assertion on \<open>parentElement\<close> in the
  bare-anchor branch is a TypeError of \<open>nextElements\<close> when the anchor has no parent
  element.
\<close>

definition bare_anchor :: "htmlelement \<Rightarrow> bool" where
  "bare_anchor hl =
     (instanceof_HTMLAnchorElement hl \<and> textContent (Element (fst hl) (snd hl)) = [])"

definition extract_els :: "target \<Rightarrow> error + htmlelement list" where
  "extract_els t =
     (let els = newHeading (headline t) # nextElements default_predicate (nextSiblings t) in
      if bare_anchor (headline t)
      then (case parentElement t of
              None \<Rightarrow> Inl TypeError
            | Some (p, ps) \<Rightarrow> Inr (els @ nextElements default_predicate ps))
      else (case parentElement t of
              None \<Rightarrow> Inr els
            | Some (p, ps) \<Rightarrow>
                if classList_contains ''doc'' p
                then Inr (els @ nextElements doc_predicate ps)
                else Inr els))"

section \<open>Locating the target\<close>

text \<open>
  Modelled from the spec: \<open>getOptionalElement\<close> is imported from \<open>~/browser\<close> and is
  not among the sources; it is the first element, in document order, that matches the
  selector, or nothing. The two selectors \<open>mountLink\<close> builds (lines 261--263) are
  \<open>article [id="..."]\<close> and \<open>article h1\<close>: a descendant of an \<open>article\<close> element
  whose id is the given value, or one that is an \<open>h1\<close>.
\<close>

datatype selector = ArticleId string | ArticleH1

fun matches :: "selector \<Rightarrow> element \<Rightarrow> bool" where
  "matches (ArticleId v) el = (getAttribute el ''id'' = Some v)"
| "matches ArticleH1 el = (tag el = ''h1'')"

fun querySelector :: "selector \<Rightarrow> bool \<Rightarrow> (htmlelement \<times> htmlelement list) option
    \<Rightarrow> node list \<Rightarrow> target option" where
  "querySelector sel inside par [] = None"
| "querySelector sel inside par (Text s # ns) = querySelector sel inside par ns"
| "querySelector sel inside par (Element e ch # ns) =
     (if inside \<and> matches sel e
      then Some \<lparr>headline = (e, ch), nextSiblings = element_siblings ns, parentElement = par\<rparr>
      else (case querySelector sel (inside \<or> tag e = ''article'')
                   (Some ((e, ch), element_siblings ns)) ch of
              Some t \<Rightarrow> Some t
            | None \<Rightarrow> querySelector sel inside par ns))"

definition getOptionalElement :: "selector \<Rightarrow> node \<Rightarrow> target option" where
  "getOptionalElement sel doc = querySelector sel False None [doc]"

section \<open>URL resolution\<close>

text \<open>
  The test \<open>/^(?:[a-z]+:)?\/\//i\<close> of line 152: the value starts with \<open>//\<close>, or with
  one or more ASCII letters, a colon and \<open>//\<close>.
\<close>

definition letter :: "char \<Rightarrow> bool" where
  "letter c = (c \<in> set ''abcdefghijklmnopqrstuvwxyzABCDEFGHIJKLMNOPQRSTUVWXYZ'')"

definition absolute_pattern :: "string \<Rightarrow> bool" where
  "absolute_pattern v =
     (let r = dropWhile letter v in take 2 v = ''//'' \<or> (r \<noteq> v \<and> take 3 r = ''://''))"

text \<open>The condition of line 152: the value is truthy (not empty) and fails the test.\<close>

definition relative :: "string \<Rightarrow> bool" where
  "relative v = (v \<noteq> [] \<and> \<not> absolute_pattern v)"

text \<open>
  The template literal of line 164 prints the counter in decimal. The counter is a
  JavaScript number that only ever counts up from 0 in steps of one; it is a natural
  number here (exact in JavaScript below \<open>2 ^ 53\<close>).
\<close>

definition digit :: "nat \<Rightarrow> char" where
  "digit d = ''0123456789'' ! d"

fun string_of_nat :: "nat \<Rightarrow> string" where
  "string_of_nat n =
     (if n < 10 then [digit n] else string_of_nat (n div 10) @ [digit (n mod 10)])"

definition suffix :: "nat \<Rightarrow> string" where
  "suffix sequence = ''$preview_'' @ string_of_nat sequence"

text \<open>
  The inner loop of lines 150--157 on one element: the keys are tried in order and the
  first one whose value is non-empty and fails the test is assigned to, after which the
  loop breaks. \<open>new_URL v base\<close> stands for \<open>new URL(v, base).toString()\<close>, which
  throws a TypeError (\<open>None\<close> here) when the value does not parse.

  The assignment \<open>el[key] = ...\<close> of line 154 writes a property of the element object,
  not the attribute. What it does is the browser's, given by \<open>assign el key\<close>: the
  property reflects the attribute, which then holds the new value (\<open>href\<close> of an
  \<open>a\<close> or a \<open>link\<close>, \<open>src\<close> of an \<open>img\<close> or a \<open>script\<close>); or the element has
  no property of that name, the object gets one of its own and the attribute stays
  (\<open>href\<close> of a \<open>span\<close>, \<open>src\<close> of an \<open>a\<close>); or the property has no setter and
  the assignment throws a TypeError in strict code (\<open>href\<close> of an SVG element).
\<close>

datatype assignment = Reflects | Expando | ReadOnly

fun resolve_keys :: "(string \<Rightarrow> string \<Rightarrow> string option) \<Rightarrow> (element \<Rightarrow> string \<Rightarrow> assignment)
    \<Rightarrow> string \<Rightarrow> string list \<Rightarrow> element \<Rightarrow> error + element" where
  "resolve_keys new_URL assign base [] el = Inr el"
| "resolve_keys new_URL assign base (key # keys) el =
     (case getAttribute el key of
        None \<Rightarrow> resolve_keys new_URL assign base keys el
      | Some v \<Rightarrow>
          if relative v
          then (case new_URL v base of
                  None \<Rightarrow> Inl TypeError
                | Some u \<Rightarrow>
                    (case assign el key of
                       Reflects \<Rightarrow> Inr (setAttribute key u el)
                     | Expando \<Rightarrow> Inr el
                     | ReadOnly \<Rightarrow> Inl TypeError))
          else resolve_keys new_URL assign base keys el)"

text \<open>
  Modelled from the spec: \<open>getElements\<close> is imported from \<open>~/browser\<close> and is not among
  the sources; it yields every element of the document that matches the selector, in
  document order. \<open>[href], [src]\<close> selects the elements that carry one of the two
  attributes; \<open>[name^=__], [for]\<close> those whose name starts with \<open>__\<close> or that carry
  a \<open>for\<close> attribute.
\<close>

definition href_or_src :: "element \<Rightarrow> bool" where
  "href_or_src el = (getAttribute el ''href'' \<noteq> None \<or> getAttribute el ''src'' \<noteq> None)"

definition name_or_for :: "element \<Rightarrow> bool" where
  "name_or_for el =
     ((case getAttribute el ''name'' of None \<Rightarrow> False | Some v \<Rightarrow> take 2 v = ''__'')
      \<or> getAttribute el ''for'' \<noteq> None)"

definition resolve_element :: "(string \<Rightarrow> string \<Rightarrow> string option)
    \<Rightarrow> (element \<Rightarrow> string \<Rightarrow> assignment) \<Rightarrow> string \<Rightarrow> element \<Rightarrow> error + element" where
  "resolve_element new_URL assign base el =
     (if href_or_src el then resolve_keys new_URL assign base [''href'', ''src''] el else Inr el)"

text \<open>The inner loop of lines 161--166 on one element.\<close>

fun suffix_keys :: "nat \<Rightarrow> string list \<Rightarrow> element \<Rightarrow> element" where
  "suffix_keys sequence [] el = el"
| "suffix_keys sequence (key # keys) el =
     (case getAttribute el key of
        None \<Rightarrow> suffix_keys sequence keys el
      | Some v \<Rightarrow>
          if v \<noteq> []
          then suffix_keys sequence keys (setAttribute key (v @ suffix sequence) el)
          else suffix_keys sequence keys el)"

definition suffix_element :: "nat \<Rightarrow> element \<Rightarrow> error + element" where
  "suffix_element sequence el =
     (if name_or_for el then Inr (suffix_keys sequence [''id'', ''for'', ''name''] el)
      else Inr el)"

text \<open>
  A loop over the selected elements that mutates each in place is a traversal of the
  tree that rebuilds every element; an exception leaves the loop at once.
\<close>

fun collect :: "(error + 'a) list \<Rightarrow> error + 'a list" where
  "collect [] = Inr []"
| "collect (r # rs) =
     (case r of
        Inl e \<Rightarrow> Inl e
      | Inr y \<Rightarrow> (case collect rs of Inl e \<Rightarrow> Inl e | Inr ys \<Rightarrow> Inr (y # ys)))"

fun update_elements :: "(element \<Rightarrow> error + element) \<Rightarrow> node \<Rightarrow> error + node" where
  "update_elements f (Text s) = Inr (Text s)"
| "update_elements f (Element e ns) =
     (case f e of
        Inl x \<Rightarrow> Inl x
      | Inr e' \<Rightarrow>
          (case collect (map (update_elements f) ns) of
             Inl x \<Rightarrow> Inl x
           | Inr ns' \<Rightarrow> Inr (Element e' ns')))"

text \<open>
  \<open>resolve\<close> (lines 144--171), with the global \<open>sequence\<close> passed in and returned. The
  counter is incremented after both loops; a call that throws leaves it as it was.
\<close>

definition resolve :: "(string \<Rightarrow> string \<Rightarrow> string option) \<Rightarrow> (element \<Rightarrow> string \<Rightarrow> assignment)
    \<Rightarrow> node \<Rightarrow> string \<Rightarrow> nat \<Rightarrow> (error + node) \<times> nat" where
  "resolve new_URL assign document base sequence =
     (case update_elements (resolve_element new_URL assign base) document of
        Inl x \<Rightarrow> (Inl x, sequence)
      | Inr d \<Rightarrow>
          (case update_elements (suffix_element sequence) d of
             Inl x \<Rightarrow> (Inl x, sequence)
           | Inr d' \<Rightarrow> (Inr d', sequence + 1)))"

text \<open>The elements of a document, in document order.\<close>

fun elements :: "node \<Rightarrow> element list" where
  "elements (Text s) = []"
| "elements (Element e ns) = e # concat (map elements ns)"

text \<open>The attribute is present and its value passes the condition of line 152.\<close>

definition relative_attribute :: "element \<Rightarrow> string \<Rightarrow> bool" where
  "relative_attribute el key =
     (case getAttribute el key of None \<Rightarrow> False | Some v \<Rightarrow> relative v)"

text \<open>
  Calls of \<open>resolve\<close> one after the other, each on its own document and base, with
  the value of the counter that each call read.
\<close>

fun resolutions :: "(string \<Rightarrow> string \<Rightarrow> string option) \<Rightarrow> (element \<Rightarrow> string \<Rightarrow> assignment)
    \<Rightarrow> (node \<times> string) list \<Rightarrow> nat \<Rightarrow> (nat \<times> (error + node)) list \<times> nat" where
  "resolutions new_URL assign [] sequence = ([], sequence)"
| "resolutions new_URL assign ((document, base) # calls) sequence =
     (case resolve new_URL assign document base sequence of
        (r, sequence') \<Rightarrow>
          (case resolutions new_URL assign calls sequence' of
             (rs, sequence'') \<Rightarrow> ((sequence, r) # rs, sequence'')))"

section \<open>Preference store\<close>

text \<open>
  \<open>distinctUntilChanged\<close> of RxJS on the list of values a source emits: a value is
  passed on unless it equals the last value passed on.
\<close>

fun distinctUntilChanged :: "'a option \<Rightarrow> 'a list \<Rightarrow> 'a list" where
  "distinctUntilChanged previous [] = []"
| "distinctUntilChanged previous (x # xs) =
     (if previous = Some x then distinctUntilChanged previous xs
      else x # distinctUntilChanged (Some x) xs)"

text \<open>
  \<open>instantPreviewEnabled$\<close> (lines 176--184), as the list of values it emits.
  \<open>instantPreviewForm\<close> says whether the toggle form was found; \<open>stored\<close> is what
  \<open>__md_get("instant.preview")\<close> returned when the module was loaded (\<open>None\<close> for
  \<open>null\<close>: nothing stored); \<open>changes\<close> are the values of the targets of the form's
  change events, in order. Without a form the signal is \<open>of(true)\<close>.
\<close>

definition instantPreviewEnabled :: "bool \<Rightarrow> bool option \<Rightarrow> string list \<Rightarrow> bool list" where
  "instantPreviewEnabled instantPreviewForm stored changes =
     (if \<not> instantPreviewForm then [True]
      else distinctUntilChanged None
             ((case stored of None \<Rightarrow> True | Some b \<Rightarrow> b)
              # map (\<lambda>v. v = ''on'') changes))"









section \<open>Activation gate\<close>

text \<open>
  Modelled from the spec: \<open>watchElementFocus\<close> and \<open>watchElementHover\<close> are imported
  from \<open>~/browser\<close> and are not among the sources; each is a source of booleans, the
  focus and the hover state of the link. Their values and those of the preference
  signal reach the gate as inputs, in the order in which they are delivered.

  \<open>active$\<close> (lines 231--241): \<open>combineLatest\<close> keeps the latest value of each
  source and emits once all three have one; \<open>previous\<close> is the memory of
  \<open>distinctUntilChanged\<close>.
\<close>

datatype signal = Focus bool | Hover bool | Enabled bool

record gate =
  focus :: "bool option"
  hover :: "bool option"
  enabled :: "bool option"
  previous :: "bool option"

definition combineLatest :: "signal \<Rightarrow> gate \<Rightarrow> gate" where
  "combineLatest i g =
     (case i of
        Focus b \<Rightarrow> g\<lparr>focus := Some b\<rparr>
      | Hover b \<Rightarrow> g\<lparr>hover := Some b\<rparr>
      | Enabled b \<Rightarrow> g\<lparr>enabled := Some b\<rparr>)"

definition combined :: "gate \<Rightarrow> bool option" where
  "combined g =
     (case focus g of None \<Rightarrow> None | Some f \<Rightarrow>
      (case hover g of None \<Rightarrow> None | Some h \<Rightarrow>
       (case enabled g of None \<Rightarrow> None | Some e \<Rightarrow> Some ((f \<or> h) \<and> e))))"

text \<open>One input: the gate after it, and whether \<open>active$\<close> emits.\<close>

definition active :: "signal \<Rightarrow> gate \<Rightarrow> gate \<times> bool" where
  "active i g =
     (let g' = combineLatest i g in
      case combined g' of
        None \<Rightarrow> (g', False)
      | Some a \<Rightarrow>
          if previous g' = Some a then (g', False)
          else (g'\<lparr>previous := Some a\<rparr>, a))"

definition gate_init :: gate where
  "gate_init = \<lparr>focus = None, hover = None, enabled = None, previous = None\<rparr>"

fun gate_after :: "signal list \<Rightarrow> gate \<Rightarrow> gate" where
  "gate_after [] g = g"
| "gate_after (i # is) g = gate_after is (fst (active i g))"

fun activations :: "signal list \<Rightarrow> gate \<Rightarrow> nat" where
  "activations [] g = 0"
| "activations (i # is) g =
     (if snd (active i g) then 1 else 0) + activations is (fst (active i g))"

text \<open>The latest value a source delivered, read off the inputs themselves.\<close>

fun focus_of :: "signal \<Rightarrow> bool option" where
  "focus_of (Focus b) = Some b"
| "focus_of i = None"

fun hover_of :: "signal \<Rightarrow> bool option" where
  "hover_of (Hover b) = Some b"
| "hover_of i = None"

fun enabled_of :: "signal \<Rightarrow> bool option" where
  "enabled_of (Enabled b) = Some b"
| "enabled_of i = None"

definition latest :: "(signal \<Rightarrow> bool option) \<Rightarrow> signal list \<Rightarrow> bool option" where
  "latest source is =
     (let bs = List.map_filter source is in if bs = [] then None else Some (last bs))"

section \<open>Preview pipeline\<close>

text \<open>
  A parsed URL: everything up to the path, the query (without \<open>?\<close>) and the fragment
  (without \<open>#\<close>), each absent or present. \<open>href\<close> is its serialisation and \<open>hash\<close>
  the getter of that name, empty when the fragment is absent or empty. Assigning the
  empty string to \<open>search\<close> or \<open>hash\<close> removes the component.
\<close>

record url =
  host :: string
  location :: string
  query :: "string option"
  fragment :: "string option"

definition href :: "url \<Rightarrow> string" where
  "href u =
     location u
     @ (case query u of None \<Rightarrow> [] | Some q \<Rightarrow> ''?'' @ q)
     @ (case fragment u of None \<Rightarrow> [] | Some f \<Rightarrow> ''#'' @ f)"

definition hash :: "url \<Rightarrow> string" where
  "hash u = (case fragment u of None \<Rightarrow> [] | Some f \<Rightarrow> if f = [] then [] else ''#'' @ f)"

text \<open>
  The guards of \<open>mountLink\<close> (lines 210--229), on what they read: of the link, whether
  it is an anchor, whether it has the attribute \<open>data-preview\<close>, its title and the URL
  its \<open>href\<close> parses to (\<open>None\<close> for an empty \<open>href\<close>); of the browser, whether
  the media query \<open>(hover: hover)\<close> matches, whether the feature
  \<open>navigation.instant.preview\<close> is set, and the host of the page.
\<close>

record link =
  anchor :: bool
  data_preview :: bool
  title :: string
  address :: "url option"

record browser =
  hover_media :: bool
  feature_preview :: bool
  location_host :: string

definition guards :: "browser \<Rightarrow> link \<Rightarrow> url option" where
  "guards w el =
     (if \<not> anchor el then None
      else if \<not> hover_media w then None
      else if \<not> (feature_preview w \<or> data_preview el) then None
      else if title el \<noteq> [] then None
      else (case address el of
              None \<Rightarrow> None
            | Some u \<Rightarrow> if host u \<noteq> location_host w then None else Some u))"

text \<open>The first \<open>switchMap\<close> (lines 246--256): \<open>EMPTY\<close> is \<open>None\<close>.\<close>

definition sitemap_url :: "string set \<Rightarrow> url \<Rightarrow> url option" where
  "sitemap_url sitemap u =
     (let url = u\<lparr>query := None, fragment := None\<rparr> in
      if href url \<notin> sitemap then None else Some url)"

text \<open>
  The third \<open>switchMap\<close> (lines 260--275). \<open>decodeURIComponent\<close> throws a URIError on
  a malformed escape (\<open>None\<close> here); the selector is given by its meaning.
\<close>

definition selector_of :: "(string \<Rightarrow> string option) \<Rightarrow> url \<Rightarrow> error + selector" where
  "selector_of decodeURIComponent u =
     (if hash u \<noteq> []
      then (case decodeURIComponent (drop 1 (hash u)) of
              None \<Rightarrow> Inl URIError
            | Some v \<Rightarrow> Inr (ArticleId v))
      else Inr ArticleH1)"

definition preview_elements :: "(string \<Rightarrow> string option) \<Rightarrow> url \<Rightarrow> node
    \<Rightarrow> error + htmlelement list option" where
  "preview_elements decodeURIComponent u doc =
     (case selector_of decodeURIComponent u of
        Inl x \<Rightarrow> Inl x
      | Inr sel \<Rightarrow>
          (case getOptionalElement sel doc of
             None \<Rightarrow> Inr None
           | Some t \<Rightarrow>
               (case extract_els t of
                  Inl x \<Rightarrow> Inl x
                | Inr els \<Rightarrow> if length els = 1 then Inr None else Inr (Some els))))"

text \<open>
  Modelled from the spec: \<open>requestHTML\<close> and \<open>mountTooltip2\<close> are imported and are
  not among the sources. A request yields at most one document, and none once it is
  unsubscribed; the tooltip holds at most one subscription to \<open>content$\<close>, only while
  it is mounted, and gives it up when it is itself unsubscribed.

  The wired observable is a machine that takes one event at a time. The events are the
  inputs of the gate, an emission of \<open>sitemap$\<close>, the document of the request in
  flight, and the tooltip subscribing to (\<open>Show\<close>) or unsubscribing from (\<open>Hide\<close>)
  \<open>content$\<close>; the effects are the request made for a run and its being dropped, the
  tooltip of a run being mounted and unmounted, and its overlay node being appended to
  and removed from the body (lines 281--288).

  The environment of a link: \<open>new URL\<close>, the assignment to a property of an element
  and \<open>decodeURIComponent\<close> as the browser has them (\<open>parser\<close>, \<open>property\<close>,
  \<open>decoder\<close>), and the URL that \<open>el.href\<close> parses to, taken to stay the same while
  the link is mounted.

  The state: the gate; the two buffers of \<open>zip\<close>; the number of runs started, which
  names the next run; the request in flight and the mounted tooltip, each with the run
  that made it; whether \<open>content$\<close> is subscribed, that is whether the overlay node is
  in the body; the global \<open>sequence\<close>; whether an exception has ended the observable;
  and the effects so far, oldest first.
\<close>

datatype event = Input signal | Sitemap "string set" | Response node | Show | Hide

datatype effect =
  Fetch nat string | Abort nat | Mount nat | Unmount nat | Append nat | Remove nat

record environment =
  parser :: "string \<Rightarrow> string \<Rightarrow> string option"
  property :: "element \<Rightarrow> string \<Rightarrow> assignment"
  decoder :: "string \<Rightarrow> string option"
  el_href :: url

record pipeline =
  gate :: gate
  sitemaps :: "string set list"
  actives :: nat
  runs :: nat
  request :: "(nat \<times> url) option"
  tooltip :: "(nat \<times> htmlelement list) option"
  overlay :: bool
  sequence :: nat
  errored :: bool
  effects :: "effect list"

definition initial :: "nat \<Rightarrow> pipeline" where
  "initial n =
     \<lparr>gate = gate_init, sitemaps = [], actives = 0, runs = 0, request = None,
      tooltip = None, overlay = False, sequence = n, errored = False, effects = []\<rparr>"

text \<open>
  Unsubscribing the inner observable of the last \<open>switchMap\<close> (lines 279--293): the
  teardown of \<open>content$\<close> removes the node if it was appended.
\<close>

definition unmount :: "pipeline \<Rightarrow> pipeline" where
  "unmount s =
     (case tooltip s of
        None \<Rightarrow> s
      | Some (r, els) \<Rightarrow>
          s\<lparr>tooltip := None, overlay := False,
            effects := effects s @ (if overlay s then [Remove r] else []) @ [Unmount r]\<rparr>)"

text \<open>Unsubscribing the inner observable of the second \<open>switchMap\<close> (line 257).\<close>

definition abort :: "pipeline \<Rightarrow> pipeline" where
  "abort s =
     (case request s of
        None \<Rightarrow> s
      | Some (r, u) \<Rightarrow> s\<lparr>request := None, effects := effects s @ [Abort r]\<rparr>)"

text \<open>An exception in a project function: the error ends the whole chain.\<close>

definition throw :: "pipeline \<Rightarrow> pipeline" where
  "throw s = (abort (unmount s))\<lparr>errored := True\<rparr>"

text \<open>
  An emission of \<open>zip\<close> (lines 245--259): the first \<open>switchMap\<close> yields the URL or
  nothing; only a URL reaches the second one, which drops the request in flight and
  makes the new one.
\<close>

definition start_run :: "environment \<Rightarrow> string set \<Rightarrow> pipeline \<Rightarrow> pipeline" where
  "start_run env sitemap s =
     (let s1 = s\<lparr>runs := runs s + 1\<rparr> in
      case sitemap_url sitemap (el_href env) of
        None \<Rightarrow> s1
      | Some u \<Rightarrow>
          (let s2 = abort s1 in
           s2\<lparr>request := Some (runs s, u),
              effects := effects s2 @ [Fetch (runs s) (href u)]\<rparr>))"

text \<open>\<open>zip\<close> emits when both buffers hold a value, taking the oldest of each.\<close>

definition zip_emit :: "environment \<Rightarrow> pipeline \<Rightarrow> pipeline" where
  "zip_emit env s =
     (case sitemaps s of
        [] \<Rightarrow> s
      | sitemap # rest \<Rightarrow>
          if actives s = 0 then s
          else start_run env sitemap (s\<lparr>sitemaps := rest, actives := actives s - 1\<rparr>))"

text \<open>
  The document arrives (lines 257--275 and 279--293): \<open>resolve\<close>, the third
  \<open>switchMap\<close>, and for a list of elements the last one, which drops the mounted
  tooltip and mounts the new one.
\<close>

definition respond :: "environment \<Rightarrow> node \<Rightarrow> pipeline \<Rightarrow> pipeline" where
  "respond env doc s =
     (case request s of
        None \<Rightarrow> s
      | Some (r, u) \<Rightarrow>
          (case resolve (parser env) (property env) doc (href u) (sequence s) of
             (Inl x, n) \<Rightarrow> throw (s\<lparr>request := None, sequence := n\<rparr>)
           | (Inr d, n) \<Rightarrow>
               (let s1 = s\<lparr>request := None, sequence := n\<rparr> in
                case preview_elements (decoder env) (el_href env) d of
                  Inl x \<Rightarrow> throw s1
                | Inr None \<Rightarrow> s1
                | Inr (Some els) \<Rightarrow>
                    (let s2 = unmount s1 in
                     s2\<lparr>tooltip := Some (r, els), effects := effects s2 @ [Mount r]\<rparr>))))"

definition step :: "environment \<Rightarrow> pipeline \<Rightarrow> event \<Rightarrow> pipeline" where
  "step env s ev =
     (if errored s then s
      else case ev of
        Input i \<Rightarrow>
          (case active i (gate s) of
             (g, fired) \<Rightarrow>
               if fired then zip_emit env (s\<lparr>gate := g, actives := actives s + 1\<rparr>)
               else s\<lparr>gate := g\<rparr>)
      | Sitemap m \<Rightarrow> zip_emit env (s\<lparr>sitemaps := sitemaps s @ [m]\<rparr>)
      | Response doc \<Rightarrow> respond env doc s
      | Show \<Rightarrow>
          (case tooltip s of
             None \<Rightarrow> s
           | Some (r, els) \<Rightarrow>
               if overlay s then s
               else s\<lparr>overlay := True, effects := effects s @ [Append r]\<rparr>)
      | Hide \<Rightarrow>
          (case tooltip s of
             None \<Rightarrow> s
           | Some (r, els) \<Rightarrow>
               if overlay s
               then s\<lparr>overlay := False, effects := effects s @ [Remove r]\<rparr>
               else s))"

definition exec :: "environment \<Rightarrow> event list \<Rightarrow> pipeline \<Rightarrow> pipeline" where
  "exec env evs s = foldl (step env) s evs"

text \<open>\<open>mountLink\<close> (lines 206--294): nothing is wired unless the guards pass.\<close>

definition mountLink :: "browser \<Rightarrow> link \<Rightarrow> nat \<Rightarrow> (url \<times> pipeline) option" where
  "mountLink w l n = (case guards w l of None \<Rightarrow> None | Some u \<Rightarrow> Some (u, initial n))"

section \<open>Traces\<close>

text \<open>
  What a list of events holds for the gate and for \<open>zip\<close>: the inputs of the gate,
  and the number of emissions of \<open>sitemap$\<close>.
\<close>

fun inputs_of :: "event list \<Rightarrow> signal list" where
  "inputs_of [] = []"
| "inputs_of (Input i # evs) = i # inputs_of evs"
| "inputs_of (ev # evs) = inputs_of evs"

fun emissions_of :: "event list \<Rightarrow> nat" where
  "emissions_of [] = 0"
| "emissions_of (Sitemap m # evs) = 1 + emissions_of evs"
| "emissions_of (ev # evs) = emissions_of evs"

text \<open>The runs that a list of effects fetched for, aborted the request of, and mounted.\<close>

fun fetched :: "effect list \<Rightarrow> nat list" where
  "fetched [] = []"
| "fetched (Fetch r u # es) = r # fetched es"
| "fetched (e # es) = fetched es"

fun aborted :: "effect list \<Rightarrow> nat list" where
  "aborted [] = []"
| "aborted (Abort r # es) = r # aborted es"
| "aborted (e # es) = aborted es"

fun mounted :: "effect list \<Rightarrow> nat list" where
  "mounted [] = []"
| "mounted (Mount r # es) = r # mounted es"
| "mounted (e # es) = mounted es"

text \<open>
  Reading the effects in order, with the run whose tooltip is mounted and whether its
  overlay is in the body: a tooltip is mounted only when none is, an overlay is
  appended only for the mounted tooltip and only when none is in the body, it is
  removed only when it is there, and a tooltip is unmounted only once its overlay is
  out of the body. \<open>None\<close> is a list of effects that breaks one of these.
\<close>

fun track :: "(nat option \<times> bool) option \<Rightarrow> effect \<Rightarrow> (nat option \<times> bool) option" where
  "track None e = None"
| "track (Some (m, ov)) (Mount r) = (if m = None then Some (Some r, False) else None)"
| "track (Some (m, ov)) (Unmount r) =
     (if m = Some r \<and> \<not> ov then Some (None, False) else None)"
| "track (Some (m, ov)) (Append r) =
     (if m = Some r \<and> \<not> ov then Some (m, True) else None)"
| "track (Some (m, ov)) (Remove r) =
     (if m = Some r \<and> ov then Some (m, False) else None)"
| "track (Some (m, ov)) e = Some (m, ov)"

definition overlays :: "effect list \<Rightarrow> (nat option \<times> bool) option" where
  "overlays es = foldl track (Some (None, False)) es"

text \<open>What holds of every state the machine reaches.\<close>

definition invariant :: "pipeline \<Rightarrow> bool" where
  "invariant s =
     (overlays (effects s) = Some (map_option fst (tooltip s), overlay s)
      \<and> (overlay s \<longrightarrow> tooltip s \<noteq> None)
      \<and> (\<forall>r\<in>set (fetched (effects s)). r < runs s)
      \<and> distinct (fetched (effects s))
      \<and> distinct (mounted (effects s))
      \<and> set (mounted (effects s)) \<subseteq> set (fetched (effects s))
      \<and> set (aborted (effects s)) \<subseteq> set (fetched (effects s))
      \<and> set (aborted (effects s)) \<inter> set (mounted (effects s)) = {}
      \<and> (\<forall>r u. request s = Some (r, u) \<longrightarrow>
            r \<in> set (fetched (effects s)) \<and> r \<notin> set (mounted (effects s))
            \<and> r \<notin> set (aborted (effects s))))"

text \<open>
  A run that has started and has no request in flight and no tooltip (\<open>settled\<close>),
  and one that in addition was never fetched for (\<open>passed\<close>).
\<close>

definition passed :: "nat \<Rightarrow> pipeline \<Rightarrow> bool" where
  "passed r s =
     (r < runs s \<and> r \<notin> set (fetched (effects s)) \<and> r \<notin> set (mounted (effects s))
      \<and> (\<forall>u. request s \<noteq> Some (r, u)))"

definition settled :: "nat \<Rightarrow> pipeline \<Rightarrow> bool" where
  "settled r s =
     (r < runs s \<and> r \<notin> set (mounted (effects s)) \<and> (\<forall>u. request s \<noteq> Some (r, u)))"

section \<open>Example inputs\<close>

text \<open>
  Elements for the override of lines 107--112: a heading and an anchor with no content,
  either of them put inside a \<open>div.doc\<close> by \<open>ex_in_doc\<close>, and what follows that
  \<open>div\<close>: a paragraph, a \<open>div.doc-contents\<close> and a \<open>div.doc-signature\<close>.
\<close>

definition ex_heading :: htmlelement where
  "ex_heading =
     (\<lparr>tag = ''h3'', classes = [''doc-heading''], attributes = [(''id'', ''f'')]\<rparr>,
      [Text ''f''])"

definition ex_anchor :: htmlelement where
  "ex_anchor = (\<lparr>tag = ''a'', classes = [], attributes = [(''id'', ''f'')]\<rparr>, [])"

definition ex_doc :: htmlelement where
  "ex_doc = (\<lparr>tag = ''div'', classes = [''doc''], attributes = []\<rparr>, [])"

definition ex_paragraph :: htmlelement where
  "ex_paragraph = (\<lparr>tag = ''p'', classes = [], attributes = []\<rparr>, [Text ''Note''])"

definition ex_contents :: htmlelement where
  "ex_contents =
     (\<lparr>tag = ''div'', classes = [''doc-contents''], attributes = []\<rparr>, [Text ''Body''])"

definition ex_signature :: htmlelement where
  "ex_signature =
     (\<lparr>tag = ''div'', classes = [''doc-signature''], attributes = []\<rparr>, [Text ''f(x)''])"

definition ex_in_doc :: "htmlelement \<Rightarrow> htmlelement list \<Rightarrow> target" where
  "ex_in_doc hl ps = \<lparr>headline = hl, nextSiblings = [], parentElement = Some (ex_doc, ps)\<rparr>"

text \<open>
  A stand-in for the URL parser that appends the value to the base and rejects a value
  of two backslashes, which the parser reads as \<open>//\<close> with no host. The HTML elements
  whose \<open>href\<close> or \<open>src\<close> property reflects the attribute; on any other element
  the assignment makes a property of the object. A link with a relative \<open>href\<close> and
  a relative \<open>src\<close>, one with an empty \<open>href\<close>, a \<open>span\<close> with a relative
  \<open>href\<close>, a link whose \<open>href\<close> is two backslashes, and a content tab: an input
  named \<open>__tabbed_1\<close> and its label.
\<close>

definition ex_new_URL :: "string \<Rightarrow> string \<Rightarrow> string option" where
  "ex_new_URL v base = (if v = [CHR 0x5C, CHR 0x5C] then None else Some (base @ v))"

definition ex_assign :: "element \<Rightarrow> string \<Rightarrow> assignment" where
  "ex_assign el key =
     (if key = ''href'' \<and> tag el \<in> set [''a'', ''area'', ''link'', ''base'']
         \<or> key = ''src'' \<and> tag el \<in> set [''img'', ''script'', ''iframe'', ''embed'',
               ''audio'', ''video'', ''source'', ''track'', ''input'']
      then Reflects else Expando)"

definition ex_backslashes :: element where
  "ex_backslashes =
     \<lparr>tag = ''a'', classes = [], attributes = [(''href'', [CHR 0x5C, CHR 0x5C])]\<rparr>"

definition ex_span :: element where
  "ex_span = \<lparr>tag = ''span'', classes = [], attributes = [(''href'', ''a'')]\<rparr>"

definition ex_link :: element where
  "ex_link = \<lparr>tag = ''a'', classes = [], attributes = [(''href'', ''a''), (''src'', ''b'')]\<rparr>"

definition ex_empty_link :: element where
  "ex_empty_link = \<lparr>tag = ''a'', classes = [], attributes = [(''href'', [])]\<rparr>"

definition ex_tabs :: node where
  "ex_tabs =
     Element \<lparr>tag = ''div'', classes = [''tabbed-set''], attributes = []\<rparr>
       [Element \<lparr>tag = ''input'', classes = [],
                 attributes = [(''id'', ''__tabbed_1_1''), (''name'', ''__tabbed_1'')]\<rparr> [],
        Element \<lparr>tag = ''label'', classes = [], attributes = [(''for'', ''__tabbed_1_1'')]\<rparr>
          [Element \<lparr>tag = ''a'', classes = [], attributes = [(''href'', ''#python'')]\<rparr>
             [Text ''Python'']]]"


text \<open>
  The link to \<open>/guide#install\<close> of the spec's end-to-end example, its page, and a page
  whose target heading is followed at once by another heading.
\<close>

definition ex_guide :: url where
  "ex_guide =
     \<lparr>host = ''example.com'', location = ''https://example.com/guide'', query = None,
      fragment = Some ''install''\<rparr>"

definition ex_env :: environment where
  "ex_env =
     \<lparr>parser = ex_new_URL, property = ex_assign, decoder = Some, el_href = ex_guide\<rparr>"

definition ex_sitemap :: "string set" where
  "ex_sitemap = {''https://example.com/'', ''https://example.com/guide''}"

definition ex_guide_page :: node where
  "ex_guide_page =
     Element \<lparr>tag = ''html'', classes = [], attributes = []\<rparr>
       [Element \<lparr>tag = ''article'', classes = [], attributes = []\<rparr>
          [Element \<lparr>tag = ''h2'', classes = [], attributes = [(''id'', ''install'')]\<rparr>
             [Text ''Install''],
           Element \<lparr>tag = ''p'', classes = [], attributes = []\<rparr> [Text ''Steps''],
           Element \<lparr>tag = ''h2'', classes = [], attributes = [(''id'', ''next'')]\<rparr>
             [Text ''Next'']]]"

definition ex_headings_page :: node where
  "ex_headings_page =
     Element \<lparr>tag = ''html'', classes = [], attributes = []\<rparr>
       [Element \<lparr>tag = ''article'', classes = [], attributes = []\<rparr>
          [Element \<lparr>tag = ''h2'', classes = [], attributes = [(''id'', ''install'')]\<rparr>
             [Text ''Install''],
           Element \<lparr>tag = ''h2'', classes = [], attributes = [(''id'', ''next'')]\<rparr>
             [Text ''Next'']]]"

section \<open>Content extraction: properties\<close>

lemma nextElements_takeWhile: "nextElements p xs = takeWhile p xs"
  by (induction xs) simp_all

lemma nextElements_run:
  "(\<forall>e\<in>set run. p e) \<Longrightarrow> \<not> p x \<Longrightarrow> nextElements p (run @ x # rest) = run"
  by (induction run) simp_all

lemma nextElements_all: "(\<forall>e\<in>set xs. p e) \<Longrightarrow> nextElements p xs = xs"
  by (induction xs) simp_all

lemma heading_not_anchor: "instanceof_HTMLHeadingElement hl \<Longrightarrow> \<not> bare_anchor hl"
  by (auto simp: instanceof_HTMLHeadingElement_def bare_anchor_def
      instanceof_HTMLAnchorElement_def)

text \<open>
  C2, as the code has it. When the target is not a bare anchor and its parent carries
  the class \<open>doc\<close>, the scan over the parent's following siblings ends at the first
  sibling that is neither a \<open>doc-contents\<close> nor a \<open>doc-signature\<close> block: the
  siblings before it are appended to the result and nothing after it is looked at,
  whatever it is. Only when every following sibling is such a block does the scan run
  to the end.
\<close>

theorem override2_scan_stops:
  assumes "parentElement t = Some (p, ps)"
    and "classList_contains ''doc'' p"
    and "\<not> bare_anchor (headline t)"
  shows "(\<forall>run x rest.
            ps = run @ x # rest \<and> (\<forall>e\<in>set run. doc_predicate e) \<and> \<not> doc_predicate x \<longrightarrow>
            extract_els t =
              Inr (newHeading (headline t)
                   # nextElements default_predicate (nextSiblings t) @ run))
       \<and> ((\<forall>e\<in>set ps. doc_predicate e) \<longrightarrow>
            extract_els t =
              Inr (newHeading (headline t)
                   # nextElements default_predicate (nextSiblings t) @ ps))"
  using assms by (simp add: extract_els_def nextElements_run nextElements_all)

theorem override2_scan_stops_witness:
  "extract_els (ex_in_doc ex_heading [ex_signature, ex_paragraph, ex_contents]) =
     Inr [newHeading ex_heading, ex_signature]"
  using override2_scan_stops
    [of "ex_in_doc ex_heading [ex_signature, ex_paragraph, ex_contents]" ex_doc
        "[ex_signature, ex_paragraph, ex_contents]",
      THEN conjunct1, rule_format, of "[ex_signature]" ex_paragraph "[ex_contents]"]
  by (simp add: ex_in_doc_def ex_doc_def ex_heading_def ex_signature_def ex_paragraph_def
      classList_contains_def bare_anchor_def instanceof_HTMLAnchorElement_def
      doc_predicate_def)

text \<open>
  The claim C2 fails on a heading inside a \<open>div.doc\<close> that is followed by a
  paragraph and then a \<open>doc-contents\<close> block: the paragraph is not a heading and
  the block after it matches, yet the result is the synthesized heading alone.
\<close>

theorem override2_skip_counterexample:
  "classList_contains ''doc'' ex_doc
   \<and> \<not> bare_anchor ex_heading
   \<and> \<not> instanceof_HTMLHeadingElement ex_paragraph
   \<and> \<not> doc_predicate ex_paragraph
   \<and> doc_predicate ex_contents
   \<and> extract_els (ex_in_doc ex_heading [ex_paragraph, ex_contents]) =
       Inr [newHeading ex_heading]"
  by (simp add: ex_in_doc_def ex_doc_def ex_heading_def ex_contents_def ex_paragraph_def
      classList_contains_def bare_anchor_def instanceof_HTMLAnchorElement_def
      instanceof_HTMLHeadingElement_def doc_predicate_def extract_els_def)

text \<open>
  C9, as the code has it. For a target whose parent carries the class \<open>doc\<close>, the
  result is the synthesized heading, the target's own following siblings up to the
  first heading or \<open>doc\<close> element, and then: for a bare anchor the parent's
  following siblings up to the first heading or \<open>doc\<close> element (the first
  override; the second is its \<open>else\<close> branch and does not apply); for any other
  target the leading run of the parent's following siblings that are
  \<open>doc-contents\<close> or \<open>doc-signature\<close> blocks.
\<close>

theorem extract_doc_parent:
  assumes "parentElement t = Some (p, ps)"
    and "classList_contains ''doc'' p"
  shows "extract_els t =
           Inr (newHeading (headline t)
                # takeWhile default_predicate (nextSiblings t)
                @ (if bare_anchor (headline t) then takeWhile default_predicate ps
                   else takeWhile doc_predicate ps))"
  using assms by (simp add: extract_els_def nextElements_takeWhile)

theorem extract_doc_parent_witness:
  "extract_els (ex_in_doc ex_heading [ex_contents, ex_paragraph]) =
     Inr [newHeading ex_heading, ex_contents]
   \<and> extract_els (ex_in_doc ex_anchor [ex_paragraph, ex_contents]) =
     Inr [newHeading ex_anchor, ex_paragraph, ex_contents]"
  using extract_doc_parent [of "ex_in_doc ex_heading [ex_contents, ex_paragraph]" ex_doc
      "[ex_contents, ex_paragraph]"]
    extract_doc_parent [of "ex_in_doc ex_anchor [ex_paragraph, ex_contents]" ex_doc
      "[ex_paragraph, ex_contents]"]
  by (simp add: ex_in_doc_def ex_doc_def ex_heading_def ex_anchor_def ex_contents_def
      ex_paragraph_def classList_contains_def bare_anchor_def
      instanceof_HTMLAnchorElement_def instanceof_HTMLHeadingElement_def
      doc_predicate_def default_predicate_def)

text \<open>
  The claim C9 fails on a bare anchor inside a \<open>div.doc\<close> that is followed by a
  paragraph: the paragraph is neither a \<open>doc-contents\<close> nor a \<open>doc-signature\<close>
  block, and it is collected. It fails as well on a heading inside a \<open>div.doc\<close>
  that is followed by a paragraph and then a \<open>doc-signature\<close> block: the block is
  among the parent's following siblings and is not collected.
\<close>

theorem bare_anchor_in_doc_counterexample:
  "bare_anchor ex_anchor
   \<and> classList_contains ''doc'' ex_doc
   \<and> \<not> doc_predicate ex_paragraph
   \<and> extract_els (ex_in_doc ex_anchor [ex_paragraph]) =
       Inr [newHeading ex_anchor, ex_paragraph]
   \<and> \<not> bare_anchor ex_heading
   \<and> doc_predicate ex_signature
   \<and> extract_els (ex_in_doc ex_heading [ex_paragraph, ex_signature]) =
       Inr [newHeading ex_heading]"
  by (simp add: ex_in_doc_def ex_doc_def ex_anchor_def ex_paragraph_def ex_heading_def
      ex_signature_def classList_contains_def bare_anchor_def instanceof_HTMLAnchorElement_def
      instanceof_HTMLHeadingElement_def doc_predicate_def default_predicate_def
      extract_els_def)

section \<open>URL resolution: properties\<close>

lemma collect_map_Inr:
  "collect (map g ns) = Inr ns' \<Longrightarrow> list_all2 (\<lambda>n n'. g n = Inr n') ns ns'"
  by (induction ns arbitrary: ns') (auto split: sum.splits)

lemma list_all2_concat_map:
  "list_all2 (\<lambda>n n'. list_all2 R (f n) (f n')) ns ns' \<Longrightarrow>
   list_all2 R (concat (map f ns)) (concat (map f ns'))"
  by (induction ns ns' rule: list_all2_induct) (auto intro: list_all2_appendI)

lemma update_elements_rel:
  "update_elements f n = Inr n' \<Longrightarrow>
   list_all2 (\<lambda>e e'. f e = Inr e') (elements n) (elements n')"
proof (induction n arbitrary: n')
  case (Text s)
  then show ?case by auto
next
  case (Element e ns)
  from Element.prems obtain e' ns' where e': "f e = Inr e'"
    and ns': "collect (map (update_elements f) ns) = Inr ns'" and n': "n' = Element e' ns'"
    by (auto split: sum.splits)
  from ns' have "list_all2 (\<lambda>n n'. update_elements f n = Inr n') ns ns'"
    by (rule collect_map_Inr)
  then have "list_all2
      (\<lambda>n n'. list_all2 (\<lambda>e e'. f e = Inr e') (elements n) (elements n')) ns ns'"
    using Element.IH by (auto simp: list_all2_conv_all_nth)
  then show ?case using e' n' by (simp add: list_all2_concat_map)
qed

lemma collect_total:
  "(\<And>r. r \<in> set rs \<Longrightarrow> \<exists>y. r = Inr y) \<Longrightarrow> \<exists>ys. collect rs = Inr ys"
  by (induction rs) (auto split: sum.splits)

lemma update_elements_total:
  "(\<And>e. e \<in> set (elements n) \<Longrightarrow> \<exists>e'. f e = Inr e') \<Longrightarrow>
   \<exists>n'. update_elements f n = Inr n'"
proof (induction n)
  case (Text s)
  then show ?case by simp
next
  case (Element e ns)
  have "\<exists>ys. collect (map (update_elements f) ns) = Inr ys"
  proof (rule collect_total)
    fix r assume "r \<in> set (map (update_elements f) ns)"
    then obtain n where n: "n \<in> set ns" and r: "r = update_elements f n" by auto
    have "\<exists>n'. update_elements f n = Inr n'"
      using n Element.prems by (intro Element.IH) auto
    then show "\<exists>y. r = Inr y" using r by simp
  qed
  moreover have "\<exists>e'. f e = Inr e'" using Element.prems by simp
  ultimately show ?case by auto
qed

lemma getAttribute_setAttribute:
  "getAttribute (setAttribute k v el) k' = (if k' = k then Some v else getAttribute el k')"
  by (simp add: getAttribute_def setAttribute_def update_conv')

lemma string_of_nat_small: "n < 10 \<Longrightarrow> string_of_nat n = [digit n]"
  by simp

lemma string_of_nat_large:
  "\<not> n < 10 \<Longrightarrow> string_of_nat n = string_of_nat (n div 10) @ [digit (n mod 10)]"
  by (subst string_of_nat.simps) simp

declare string_of_nat.simps [simp del]

lemma string_of_nat_nonempty: "string_of_nat n \<noteq> []"
  by (cases "n < 10") (simp_all add: string_of_nat_small string_of_nat_large)

lemma below_ten: "a < 10 \<Longrightarrow> a \<in> {0, 1, 2, 3, 4, 5, 6, 7, 8, 9::nat}"
  by auto

lemma digit_inj: "a < 10 \<Longrightarrow> b < 10 \<Longrightarrow> digit a = digit b \<Longrightarrow> a = b"
  by (drule below_ten, drule below_ten) (auto simp: digit_def)

lemma string_of_nat_inj: "string_of_nat m = string_of_nat n \<Longrightarrow> m = n"
proof (induction m arbitrary: n rule: string_of_nat.induct)
  case (1 m)
  note nonempty = string_of_nat_nonempty string_of_nat_nonempty [THEN not_sym]
  show ?case
  proof (cases "m < 10")
    case True
    then have m: "string_of_nat m = [digit m]" by (rule string_of_nat_small)
    show ?thesis
    proof (cases "n < 10")
      case True
      then have "string_of_nat n = [digit n]" by (rule string_of_nat_small)
      with m 1(2) \<open>m < 10\<close> True show ?thesis by (auto dest: digit_inj)
    next
      case False
      then have "string_of_nat n = string_of_nat (n div 10) @ [digit (n mod 10)]"
        by (rule string_of_nat_large)
      with m 1(2) show ?thesis by (simp add: nonempty)
    qed
  next
    case False
    then have m: "string_of_nat m = string_of_nat (m div 10) @ [digit (m mod 10)]"
      by (rule string_of_nat_large)
    show ?thesis
    proof (cases "n < 10")
      case True
      then have "string_of_nat n = [digit n]" by (rule string_of_nat_small)
      with m 1(2) show ?thesis by (simp add: nonempty)
    next
      case large: False
      then have n: "string_of_nat n = string_of_nat (n div 10) @ [digit (n mod 10)]"
        by (rule string_of_nat_large)
      from m n 1(2) have eq: "string_of_nat (m div 10) = string_of_nat (n div 10)"
        and d: "digit (m mod 10) = digit (n mod 10)" by auto
      from 1(1)[OF False eq] have "m div 10 = n div 10" .
      moreover from d have "m mod 10 = n mod 10" by (rule digit_inj [rotated 2]) simp_all
      ultimately show ?thesis by (metis div_mult_mod_eq)
    qed
  qed
qed

lemma suffix_inj: "suffix m = suffix n \<Longrightarrow> m = n"
  by (simp add: suffix_def string_of_nat_inj)

lemma distinct_suffixes: "distinct (map suffix [m..<n])"
  by (simp add: distinct_map inj_on_def) (blast dest: suffix_inj)

lemma resolve_element_cases:
  assumes "resolve_element new_URL assign base el = Inr el'"
  shows "(\<forall>h. getAttribute el ''href'' = Some h \<and> relative h \<longrightarrow>
            (\<exists>u. new_URL h base = Some u \<and> assign el ''href'' \<noteq> ReadOnly
               \<and> el' = (if assign el ''href'' = Reflects then setAttribute ''href'' u el
                        else el)))
       \<and> (\<forall>r. \<not> relative_attribute el ''href'' \<and> getAttribute el ''src'' = Some r
              \<and> relative r \<longrightarrow>
            (\<exists>u. new_URL r base = Some u \<and> assign el ''src'' \<noteq> ReadOnly
               \<and> el' = (if assign el ''src'' = Reflects then setAttribute ''src'' u el
                        else el)))
       \<and> (\<not> relative_attribute el ''href'' \<and> \<not> relative_attribute el ''src'' \<longrightarrow> el' = el)"
  using assms
  by (auto simp: resolve_element_def href_or_src_def relative_attribute_def
      split: option.splits if_splits assignment.splits)

lemma resolve_element_other:
  "resolve_element new_URL assign base el = Inr el' \<Longrightarrow> k \<noteq> ''href'' \<Longrightarrow> k \<noteq> ''src'' \<Longrightarrow>
   getAttribute el' k = getAttribute el k"
  by (drule resolve_element_cases,
      cases "relative_attribute el ''href''"; cases "relative_attribute el ''src''")
    (auto simp: getAttribute_setAttribute relative_attribute_def split: option.splits)

lemma suffix_keys_attr:
  "distinct keys \<Longrightarrow>
   getAttribute (suffix_keys s keys el) k =
     (if k \<in> set keys
      then map_option (\<lambda>v. if v \<noteq> [] then v @ suffix s else v) (getAttribute el k)
      else getAttribute el k)"
proof (induction keys arbitrary: el)
  case Nil
  then show ?case by simp
next
  case (Cons key keys)
  then show ?case
    by (auto simp: getAttribute_setAttribute split: option.splits)
qed

lemma suffix_element_attr:
  "suffix_element s el = Inr el' \<Longrightarrow>
   getAttribute el' k =
     (if name_or_for el \<and> k \<in> set [''id'', ''for'', ''name'']
      then map_option (\<lambda>v. if v \<noteq> [] then v @ suffix s else v) (getAttribute el k)
      else getAttribute el k)"
  by (auto simp: suffix_element_def suffix_keys_attr simp del: suffix_keys.simps
      split: if_splits)

lemma resolve_element_name_or_for:
  "resolve_element new_URL assign base el = Inr el' \<Longrightarrow> name_or_for el' = name_or_for el"
  by (simp add: name_or_for_def resolve_element_other)

lemma suffix_element_name_or_for:
  "suffix_element s el = Inr el' \<Longrightarrow> name_or_for el' = name_or_for el"
  by (auto simp: name_or_for_def suffix_element_attr split: option.splits)

lemma resolve_Inr:
  assumes "resolve new_URL assign doc base s = (Inr d', s')"
  shows "s' = s + 1 \<and>
    list_all2 (\<lambda>el el'. \<exists>m. resolve_element new_URL assign base el = Inr m
                           \<and> suffix_element s m = Inr el')
      (elements doc) (elements d')"
proof -
  from assms obtain d where d: "update_elements (resolve_element new_URL assign base) doc = Inr d"
    and d': "update_elements (suffix_element s) d = Inr d'" and s': "s' = s + 1"
    by (auto simp: resolve_def split: sum.splits)
  have "list_all2 (\<lambda>el m. resolve_element new_URL assign base el = Inr m) (elements doc) (elements d)"
    using d by (rule update_elements_rel)
  moreover have "list_all2 (\<lambda>m el'. suffix_element s m = Inr el') (elements d) (elements d')"
    using d' by (rule update_elements_rel)
  ultimately have "list_all2 ((\<lambda>el m. resolve_element new_URL assign base el = Inr m) OO
      (\<lambda>m el'. suffix_element s m = Inr el')) (elements doc) (elements d')"
    by (auto simp: list.rel_compp)
  then have "list_all2 (\<lambda>el el'. \<exists>m. resolve_element new_URL assign base el = Inr m
                           \<and> suffix_element s m = Inr el')
      (elements doc) (elements d')"
    by (rule list_all2_mono) auto
  with s' show ?thesis by simp
qed

lemma resolve_Inl: "resolve new_URL assign doc base s = (Inl x, s') \<Longrightarrow> s' = s"
  by (auto simp: resolve_def split: sum.splits)

text \<open>What one returning call does to the three identifier attributes of an element.\<close>

lemma resolve_identifiers:
  assumes "resolve new_URL assign doc base s = (Inr d', s')"
  shows "list_all2 (\<lambda>el el'. name_or_for el' = name_or_for el \<and>
      (\<forall>k\<in>set [''id'', ''for'', ''name'']. getAttribute el' k =
         (if name_or_for el
          then map_option (\<lambda>v. if v \<noteq> [] then v @ suffix s else v) (getAttribute el k)
          else getAttribute el k)))
    (elements doc) (elements d')"
proof (rule list_all2_mono [OF resolve_Inr [OF assms, THEN conjunct2]])
  fix el el'
  assume "\<exists>m. resolve_element new_URL assign base el = Inr m \<and> suffix_element s m = Inr el'"
  then obtain m where m: "resolve_element new_URL assign base el = Inr m"
    and el': "suffix_element s m = Inr el'" by blast
  have sel: "name_or_for m = name_or_for el" using m by (rule resolve_element_name_or_for)
  have "name_or_for el' = name_or_for el"
    using suffix_element_name_or_for [OF el'] sel by simp
  moreover have "\<forall>k\<in>set [''id'', ''for'', ''name'']. getAttribute el' k =
         (if name_or_for el
          then map_option (\<lambda>v. if v \<noteq> [] then v @ suffix s else v) (getAttribute el k)
          else getAttribute el k)"
    using suffix_element_attr [OF el'] resolve_element_other [OF m] sel by auto
  ultimately show "name_or_for el' = name_or_for el \<and>
      (\<forall>k\<in>set [''id'', ''for'', ''name'']. getAttribute el' k =
         (if name_or_for el
          then map_option (\<lambda>v. if v \<noteq> [] then v @ suffix s else v) (getAttribute el k)
          else getAttribute el k))" by blast
qed

lemma resolutions_counters:
  "resolutions new_URL assign calls s = (rs, s') \<Longrightarrow>
   map fst (filter (\<lambda>(n, r). \<not> isl r) rs) = [s..<s'] \<and> s \<le> s' \<and> length rs = length calls"
proof (induction calls arbitrary: s rs s')
  case Nil
  then show ?case by simp
next
  case (Cons c calls)
  obtain doc base where c: "c = (doc, base)" by (cases c)
  obtain r s1 where r: "resolve new_URL assign doc base s = (r, s1)" by (cases "resolve new_URL assign doc base s")
  obtain rs1 s2 where rs1: "resolutions new_URL assign calls s1 = (rs1, s2)"
    by (cases "resolutions new_URL assign calls s1")
  from Cons.prems c r rs1 have rs: "rs = (s, r) # rs1" and s': "s' = s2" by auto
  note IH = Cons.IH [OF rs1]
  show ?case
  proof (cases r)
    case (Inl x)
    with r have "s1 = s" by (auto dest: resolve_Inl)
    with IH rs s' Inl show ?thesis by simp
  next
    case (Inr d)
    with r have "s1 = s + 1" by (auto dest: resolve_Inr)
    with IH rs s' Inr show ?thesis by (simp add: upt_conv_Cons)
  qed
qed


lemma resolve_keys_total:
  assumes "\<forall>v. \<exists>u. new_URL v base = Some u" and "\<forall>e key. assign e key \<noteq> ReadOnly"
  shows "\<exists>el'. resolve_keys new_URL assign base keys el = Inr el'"
proof (induction keys)
  case Nil
  then show ?case by simp
next
  case (Cons key keys)
  show ?case
  proof (cases "getAttribute el key")
    case None
    with Cons show ?thesis by simp
  next
    case (Some v)
    from assms(1) obtain u where "new_URL v base = Some u" by blast
    with Some Cons assms(2) show ?thesis
      by (cases "assign el key") (auto simp del: resolve_keys.simps(2) simp add: resolve_keys.simps(2) [of new_URL assign base key keys el])
  qed
qed

lemma resolve_returns:
  assumes "\<forall>v. \<exists>u. new_URL v base = Some u" and "\<forall>e key. assign e key \<noteq> ReadOnly"
  shows "\<exists>d. resolve new_URL assign doc base n = (Inr d, n + 1)"
proof -
  have "\<exists>el'. resolve_element new_URL assign base el = Inr el'" for el
    using resolve_keys_total [of new_URL base assign "[''href'', ''src'']" el] assms
    by (simp add: resolve_element_def del: resolve_keys.simps)
  then obtain d1 where d1: "update_elements (resolve_element new_URL assign base) doc = Inr d1"
    using update_elements_total [of doc "resolve_element new_URL assign base"] by blast
  have "\<exists>el'. suffix_element n el = Inr el'" for el
    by (simp add: suffix_element_def)
  then obtain d2 where "update_elements (suffix_element n) d1 = Inr d2"
    using update_elements_total [of d1 "suffix_element n"] by blast
  with d1 show ?thesis by (simp add: resolve_def)
qed

text \<open>
  C3, as the code has it. After a call that returns, on every element the first of
  \<open>href\<close>, \<open>src\<close> (in this order) whose value is not empty and fails the test is the
  one that is assigned to: where the property of that name reflects the attribute, the
  attribute is the URL that the original value resolves to against the base, and where
  the element has no such property the attribute is as it was. The other one of the
  two is as it was; where neither has such a value, both are as they were. So an empty
  value, a value that passes the test, and the \<open>src\<close> of an element whose \<open>href\<close>
  was assigned to all stay, and at most one of the two is rewritten per element.
\<close>

theorem resolve_first_relative:
  assumes "resolve new_URL assign document base n = (Inr document', n')"
  shows "list_all2 (\<lambda>el el'.
      (\<forall>h. getAttribute el ''href'' = Some h \<and> relative h \<longrightarrow>
         new_URL h base \<noteq> None \<and> assign el ''href'' \<noteq> ReadOnly
         \<and> getAttribute el' ''href'' =
             (if assign el ''href'' = Reflects then new_URL h base else Some h)
         \<and> getAttribute el' ''src'' = getAttribute el ''src'')
    \<and> (\<forall>r. \<not> relative_attribute el ''href'' \<and> getAttribute el ''src'' = Some r
            \<and> relative r \<longrightarrow>
         new_URL r base \<noteq> None \<and> assign el ''src'' \<noteq> ReadOnly
         \<and> getAttribute el' ''src'' =
             (if assign el ''src'' = Reflects then new_URL r base else Some r)
         \<and> getAttribute el' ''href'' = getAttribute el ''href'')
    \<and> (\<not> relative_attribute el ''href'' \<and> \<not> relative_attribute el ''src'' \<longrightarrow>
         getAttribute el' ''href'' = getAttribute el ''href''
         \<and> getAttribute el' ''src'' = getAttribute el ''src''))
    (elements document) (elements document')"
proof (rule list_all2_mono [OF resolve_Inr [OF assms, THEN conjunct2]])
  fix el el'
  assume "\<exists>m. resolve_element new_URL assign base el = Inr m \<and> suffix_element n m = Inr el'"
  then obtain m where m: "resolve_element new_URL assign base el = Inr m"
    and el': "suffix_element n m = Inr el'" by blast
  have href: "getAttribute el' ''href'' = getAttribute m ''href''"
    and src: "getAttribute el' ''src'' = getAttribute m ''src''"
    using suffix_element_attr [OF el'] by simp_all
  note cases = resolve_element_cases [OF m]
  show "(\<forall>h. getAttribute el ''href'' = Some h \<and> relative h \<longrightarrow>
         new_URL h base \<noteq> None \<and> assign el ''href'' \<noteq> ReadOnly
         \<and> getAttribute el' ''href'' =
             (if assign el ''href'' = Reflects then new_URL h base else Some h)
         \<and> getAttribute el' ''src'' = getAttribute el ''src'')
    \<and> (\<forall>r. \<not> relative_attribute el ''href'' \<and> getAttribute el ''src'' = Some r
            \<and> relative r \<longrightarrow>
         new_URL r base \<noteq> None \<and> assign el ''src'' \<noteq> ReadOnly
         \<and> getAttribute el' ''src'' =
             (if assign el ''src'' = Reflects then new_URL r base else Some r)
         \<and> getAttribute el' ''href'' = getAttribute el ''href'')
    \<and> (\<not> relative_attribute el ''href'' \<and> \<not> relative_attribute el ''src'' \<longrightarrow>
         getAttribute el' ''href'' = getAttribute el ''href''
         \<and> getAttribute el' ''src'' = getAttribute el ''src'')"
  proof (intro conjI allI impI)
    fix h assume h: "getAttribute el ''href'' = Some h \<and> relative h"
    with cases obtain u where u: "new_URL h base = Some u"
      and w: "assign el ''href'' \<noteq> ReadOnly"
      and "m = (if assign el ''href'' = Reflects then setAttribute ''href'' u el else el)"
      by blast
    then show "new_URL h base \<noteq> None" "assign el ''href'' \<noteq> ReadOnly"
      "getAttribute el' ''href'' =
         (if assign el ''href'' = Reflects then new_URL h base else Some h)"
      "getAttribute el' ''src'' = getAttribute el ''src''"
      using href src h by (simp_all add: getAttribute_setAttribute)
  next
    fix r assume r: "\<not> relative_attribute el ''href'' \<and> getAttribute el ''src'' = Some r
      \<and> relative r"
    with cases obtain u where u: "new_URL r base = Some u"
      and w: "assign el ''src'' \<noteq> ReadOnly"
      and "m = (if assign el ''src'' = Reflects then setAttribute ''src'' u el else el)"
      by blast
    then show "new_URL r base \<noteq> None" "assign el ''src'' \<noteq> ReadOnly"
      "getAttribute el' ''src'' =
         (if assign el ''src'' = Reflects then new_URL r base else Some r)"
      "getAttribute el' ''href'' = getAttribute el ''href''"
      using href src r by (simp_all add: getAttribute_setAttribute)
  next
    assume "\<not> relative_attribute el ''href'' \<and> \<not> relative_attribute el ''src''"
    with cases have "m = el" by blast
    then show "getAttribute el' ''href'' = getAttribute el ''href''"
      "getAttribute el' ''src'' = getAttribute el ''src''"
      using href src by simp_all
  qed
qed

lemma ex_resolve_link:
  "resolve ex_new_URL ex_assign
     (Element ex_link [Element ex_empty_link [], Element ex_span []])
     ''https://example.com/'' 0 =
     (Inr (Element
        \<lparr>tag = ''a'', classes = [],
         attributes = [(''href'', ''https://example.com/a''), (''src'', ''b'')]\<rparr>
        [Element ex_empty_link [], Element ex_span []]), 1)"
  by code_simp

theorem resolve_first_relative_witness:
  "list_all2 (\<lambda>el el'.
      getAttribute el' ''href'' =
        (if relative_attribute el ''href'' \<and> ex_assign el ''href'' = Reflects
         then ex_new_URL (the (getAttribute el ''href'')) ''https://example.com/''
         else getAttribute el ''href'')
    \<and> getAttribute el' ''src'' = getAttribute el ''src'')
    [ex_link, ex_empty_link, ex_span]
    [\<lparr>tag = ''a'', classes = [],
      attributes = [(''href'', ''https://example.com/a''), (''src'', ''b'')]\<rparr>,
     ex_empty_link, ex_span]"
  using resolve_first_relative [OF ex_resolve_link]
  by (simp add: ex_link_def ex_empty_link_def ex_span_def ex_new_URL_def ex_assign_def
      getAttribute_def relative_attribute_def relative_def absolute_pattern_def letter_def)

text \<open>
  The claim C3 fails on a link that carries a relative \<open>href\<close> and a relative
  \<open>src\<close>, on one whose \<open>href\<close> is empty, and on a \<open>span\<close> with a relative
  \<open>href\<close>: none of \<open>b\<close>, the empty value and \<open>a\<close> matches the pattern, and all
  three are as they were after the call.
\<close>

theorem resolve_every_relative_counterexample:
  "\<not> absolute_pattern ''b''
   \<and> \<not> absolute_pattern []
   \<and> \<not> absolute_pattern ''a''
   \<and> ex_new_URL ''b'' ''https://example.com/'' = Some ''https://example.com/b''
   \<and> ex_new_URL [] ''https://example.com/'' = Some ''https://example.com/''
   \<and> ex_new_URL ''a'' ''https://example.com/'' = Some ''https://example.com/a''
   \<and> resolve ex_new_URL ex_assign
        (Element ex_link [Element ex_empty_link [], Element ex_span []])
        ''https://example.com/'' 0 =
       (Inr (Element
          \<lparr>tag = ''a'', classes = [],
           attributes = [(''href'', ''https://example.com/a''), (''src'', ''b'')]\<rparr>
          [Element \<lparr>tag = ''a'', classes = [], attributes = [(''href'', [])]\<rparr> [],
           Element \<lparr>tag = ''span'', classes = [], attributes = [(''href'', ''a'')]\<rparr> []]),
        1)"
  by code_simp

text \<open>
  C4, as the code has it. A call of \<open>resolve\<close> that returns leaves the counter one
  higher than it found it, and every identifier it rewrote (a non-empty \<open>id\<close>,
  \<open>for\<close> or \<open>name\<close> of an element whose name starts with \<open>__\<close> or that has a
  \<open>for\<close> attribute) carries the suffix of the value the call found. A second call on
  the resulting document that returns leaves the counter two higher and a second
  suffix, that of the next value, on each of those identifiers. A call that throws
  leaves the counter as it found it. The suffixes of different counter values differ;
  of calls made one after the other, those that return read the values from the first
  counter up to the last one, each once, so their suffixes are distinct.
\<close>

theorem resolve_sequence:
  "(\<forall>d1 n1. resolve new_URL assign document base n = (Inr d1, n1) \<longrightarrow>
      n1 = n + 1
      \<and> list_all2 (\<lambda>el el'. \<forall>key\<in>set [''id'', ''for'', ''name'']. \<forall>v.
            name_or_for el \<and> getAttribute el key = Some v \<and> v \<noteq> [] \<longrightarrow>
            getAttribute el' key = Some (v @ suffix n))
          (elements document) (elements d1)
      \<and> (\<forall>d2 n2. resolve new_URL assign d1 base n1 = (Inr d2, n2) \<longrightarrow>
            n2 = n + 2
          \<and> list_all2 (\<lambda>el el'. \<forall>key\<in>set [''id'', ''for'', ''name'']. \<forall>v.
                name_or_for el \<and> getAttribute el key = Some v \<and> v \<noteq> [] \<longrightarrow>
                getAttribute el' key = Some (v @ suffix n @ suffix (n + 1)))
              (elements document) (elements d2)))
    \<and> (\<forall>x n1. resolve new_URL assign document base n = (Inl x, n1) \<longrightarrow> n1 = n)
    \<and> suffix n \<noteq> suffix (n + 1)
    \<and> (\<forall>calls rs n'.
          resolutions new_URL assign calls n = (rs, n') \<longrightarrow>
          map fst (filter (\<lambda>(m, r). \<not> isl r) rs) = [n..<n']
        \<and> distinct (map (\<lambda>(m, r). suffix m) (filter (\<lambda>(m, r). \<not> isl r) rs)))"
proof (intro conjI allI impI)
  show "suffix n \<noteq> suffix (n + 1)" by (auto dest: suffix_inj)
  {
    fix x n1 assume "resolve new_URL assign document base n = (Inl x, n1)"
    then show "n1 = n" by (rule resolve_Inl)
  }
  {
    fix d1 n1 assume first: "resolve new_URL assign document base n = (Inr d1, n1)"
    show n1: "n1 = n + 1" using resolve_Inr [OF first] by simp
    note ids = resolve_identifiers [OF first]
    show "list_all2 (\<lambda>el el'. \<forall>key\<in>set [''id'', ''for'', ''name'']. \<forall>v.
            name_or_for el \<and> getAttribute el key = Some v \<and> v \<noteq> [] \<longrightarrow>
            getAttribute el' key = Some (v @ suffix n))
          (elements document) (elements d1)"
      by (rule list_all2_mono [OF ids]) auto
    fix d2 n2 assume "resolve new_URL assign d1 base n1 = (Inr d2, n2)"
    then have second: "resolve new_URL assign d1 base (n + 1) = (Inr d2, n2)"
      using n1 by simp
    show "n2 = n + 2" using resolve_Inr [OF second] by simp
    have "list_all2
        ((\<lambda>el m. name_or_for m = name_or_for el \<and>
            (\<forall>k\<in>set [''id'', ''for'', ''name'']. getAttribute m k =
               (if name_or_for el
                then map_option (\<lambda>v. if v \<noteq> [] then v @ suffix n else v) (getAttribute el k)
                else getAttribute el k))) OO
         (\<lambda>m el'. name_or_for el' = name_or_for m \<and>
            (\<forall>k\<in>set [''id'', ''for'', ''name'']. getAttribute el' k =
               (if name_or_for m
                then map_option (\<lambda>v. if v \<noteq> [] then v @ suffix (n + 1) else v)
                       (getAttribute m k)
                else getAttribute m k))))
        (elements document) (elements d2)"
      using ids resolve_identifiers [OF second] by (auto simp: list.rel_compp)
    then show "list_all2 (\<lambda>el el'. \<forall>key\<in>set [''id'', ''for'', ''name'']. \<forall>v.
              name_or_for el \<and> getAttribute el key = Some v \<and> v \<noteq> [] \<longrightarrow>
              getAttribute el' key = Some (v @ suffix n @ suffix (n + 1)))
            (elements document) (elements d2)"
      by (rule list_all2_mono) auto
  }
  {
    fix calls rs n'
    assume a: "resolutions new_URL assign calls n = (rs, n')"
    from resolutions_counters [OF a]
    show m: "map fst (filter (\<lambda>(m, r). \<not> isl r) rs) = [n..<n']" by simp
    have "map (\<lambda>(m, r). suffix m) (filter (\<lambda>(m, r). \<not> isl r) rs) =
        map suffix (map fst (filter (\<lambda>(m, r). \<not> isl r) rs))"
      by (simp add: case_prod_unfold)
    with m show "distinct (map (\<lambda>(m, r). suffix m) (filter (\<lambda>(m, r). \<not> isl r) rs))"
      by (simp add: distinct_suffixes)
  }
qed

lemma ex_resolve_tabs:
  "resolve ex_new_URL ex_assign ex_tabs ''https://example.com/'' 7 =
     (Inr (Element \<lparr>tag = ''div'', classes = [''tabbed-set''], attributes = []\<rparr>
       [Element \<lparr>tag = ''input'', classes = [],
                 attributes = [(''id'', ''__tabbed_1_1$preview_7''),
                               (''name'', ''__tabbed_1$preview_7'')]\<rparr> [],
        Element \<lparr>tag = ''label'', classes = [],
                 attributes = [(''for'', ''__tabbed_1_1$preview_7'')]\<rparr>
          [Element \<lparr>tag = ''a'', classes = [],
                    attributes = [(''href'', ''https://example.com/#python'')]\<rparr>
             [Text ''Python'']]]), 8)"
  by code_simp

theorem resolve_sequence_witness:
  "\<exists>d1. resolve ex_new_URL ex_assign ex_tabs ''https://example.com/'' 7 = (Inr d1, 7 + 1)
     \<and> list_all2 (\<lambda>el el'. \<forall>key\<in>set [''id'', ''for'', ''name'']. \<forall>v.
          name_or_for el \<and> getAttribute el key = Some v \<and> v \<noteq> [] \<longrightarrow>
          getAttribute el' key = Some (v @ suffix 7))
        (elements ex_tabs) (elements d1)"
  using resolve_sequence [of ex_new_URL ex_assign ex_tabs "''https://example.com/''" 7,
      THEN conjunct1, rule_format, OF ex_resolve_tabs] ex_resolve_tabs
  by simp

text \<open>
  The claim C4 fails on a document with a link whose \<open>href\<close> is two backslashes,
  which the URL parser rejects: the call throws in the first loop and the counter is
  still 7. Of two calls made one after the other, the first on this document, both
  read 7.
\<close>

theorem resolve_throws_counterexample:
  "resolve ex_new_URL ex_assign (Element ex_backslashes []) ''https://example.com/'' 7 =
     (Inl TypeError, 7)
   \<and> map fst (fst (resolutions ex_new_URL ex_assign
        [(Element ex_backslashes [], ''https://example.com/''),
         (ex_tabs, ''https://example.com/'')] 7)) = [7, 7]"
  by code_simp

section \<open>Preference store: properties\<close>

lemma distinctUntilChanged_Some:
  "distinctUntilChanged (Some p) xs = tl (remdups_adj (p # xs))"
proof (induction xs arbitrary: p)
  case Nil
  then show ?case by simp
next
  case (Cons x xs)
  have "remdups_adj (x # xs) = x # tl (remdups_adj (x # xs))"
    by (cases xs) simp_all
  with Cons show ?case by simp
qed

lemma distinctUntilChanged_None: "distinctUntilChanged None xs = remdups_adj xs"
proof (cases xs)
  case Nil
  then show ?thesis by simp
next
  case (Cons x ys)
  have "remdups_adj (x # ys) = x # tl (remdups_adj (x # ys))"
    by (cases ys) simp_all
  with Cons show ?thesis by (simp add: distinctUntilChanged_Some)
qed

text \<open>
  C8, as the code has it. With a toggle form, the signal is the stored value, or true
  when nothing is stored, followed by one value for each change of the control, true
  exactly when the control's value is \<open>on\<close>, with adjacent duplicates removed; so it
  starts with the seed and its current value is that of the latest change. Without a
  toggle form the signal is the single value true, whatever is stored.
\<close>

theorem preference_signal:
  "instantPreviewEnabled True stored changes =
     remdups_adj ((case stored of None \<Rightarrow> True | Some b \<Rightarrow> b) # map (\<lambda>v. v = ''on'') changes)
   \<and> hd (instantPreviewEnabled True stored changes) =
       (case stored of None \<Rightarrow> True | Some b \<Rightarrow> b)
   \<and> last (instantPreviewEnabled True stored changes) =
       last ((case stored of None \<Rightarrow> True | Some b \<Rightarrow> b) # map (\<lambda>v. v = ''on'') changes)
   \<and> instantPreviewEnabled False stored changes = [True]"
  by (simp add: instantPreviewEnabled_def distinctUntilChanged_None hd_remdups_adj
      last_remdups_adj del: remdups_adj.simps distinctUntilChanged.simps)

text \<open>
  The claim C8 fails on a page without a toggle form on which the preference is stored
  as false: the signal is seeded with true.
\<close>

theorem preference_without_form_counterexample:
  "instantPreviewEnabled False (Some False) [] = [True]"
  by (simp add: instantPreviewEnabled_def)









section \<open>Activation gate: properties\<close>

lemma gate_after_snoc: "gate_after (is @ [i]) g = fst (active i (gate_after is g))"
  by (induction "is" arbitrary: g) simp_all

lemma activations_snoc:
  "activations (is @ [i]) g =
     activations is g + (if snd (active i (gate_after is g)) then 1 else 0)"
  by (induction "is" arbitrary: g) simp_all

lemma active_latest:
  "focus (fst (active i g)) = (case focus_of i of None \<Rightarrow> focus g | Some b \<Rightarrow> Some b)"
  "hover (fst (active i g)) = (case hover_of i of None \<Rightarrow> hover g | Some b \<Rightarrow> Some b)"
  "enabled (fst (active i g)) = (case enabled_of i of None \<Rightarrow> enabled g | Some b \<Rightarrow> Some b)"
  by (cases i; simp add: active_def combineLatest_def Let_def split: option.splits)+

lemma latest_snoc:
  "latest source (is @ [i]) = (case source i of None \<Rightarrow> latest source is | Some b \<Rightarrow> Some b)"
  by (cases "source i") (simp_all add: latest_def List.map_filter_def)

lemma gate_after_latest:
  "focus (gate_after is gate_init) = latest focus_of is
   \<and> hover (gate_after is gate_init) = latest hover_of is
   \<and> enabled (gate_after is gate_init) = latest enabled_of is"
proof (induction "is" rule: rev_induct)
  case Nil
  then show ?case by (simp add: gate_init_def latest_def)
next
  case (snoc i "is")
  then show ?case
    by (auto simp: gate_after_snoc active_latest latest_snoc split: option.splits)
qed

lemma combined_previous [simp]: "combined (g\<lparr>previous := p\<rparr>) = combined g"
  by (simp add: combined_def cong: option.case_cong)

lemma previous_combineLatest [simp]: "previous (combineLatest i g) = previous g"
  by (cases i) (simp_all add: combineLatest_def)

lemma combined_combineLatest_None:
  "combined (combineLatest i g) = None \<Longrightarrow> combined g = None"
  by (cases i) (simp_all add: combineLatest_def combined_def split: option.splits)

lemma active_combined: "combined (fst (active i g)) = combined (combineLatest i g)"
  by (cases "combined (combineLatest i g)") (simp_all add: active_def Let_def)

lemma active_previous:
  assumes "previous g = combined g"
  shows "previous (fst (active i g)) = combined (fst (active i g))"
proof (cases "combined (combineLatest i g)")
  case None
  then have "combined g = None" by (rule combined_combineLatest_None)
  with None assms show ?thesis by (simp add: active_def Let_def)
next
  case (Some a)
  then show ?thesis by (simp add: active_def Let_def)
qed

lemma gate_after_previous:
  "previous (gate_after is gate_init) = combined (gate_after is gate_init)"
proof (induction "is" rule: rev_induct)
  case Nil
  then show ?case by (simp add: gate_init_def combined_def)
next
  case (snoc i "is")
  then show ?case by (simp add: gate_after_snoc active_previous)
qed

lemma active_fires:
  assumes "previous g = combined g"
  shows "snd (active i g) =
    (combined (combineLatest i g) = Some True \<and> combined g \<noteq> Some True)"
proof (cases "combined (combineLatest i g)")
  case None
  then show ?thesis by (simp add: active_def Let_def)
next
  case (Some a)
  with assms show ?thesis by (auto simp: active_def Let_def)
qed

text \<open>
  C5. After any inputs, the value the gate holds is \<open>(focus \<or> hover) \<and> enabled\<close> of
  the latest value of each source, once all three have delivered one. The next input
  makes \<open>active$\<close> emit exactly when it makes this value true and it was not true
  before: an input that leaves the value as it was emits nothing, and so does one that
  makes it false.
\<close>

theorem activation_gate:
  "combined (gate_after is gate_init) =
     (case latest focus_of is of None \<Rightarrow> None | Some f \<Rightarrow>
      (case latest hover_of is of None \<Rightarrow> None | Some h \<Rightarrow>
       (case latest enabled_of is of None \<Rightarrow> None | Some e \<Rightarrow> Some ((f \<or> h) \<and> e))))
   \<and> snd (active i (gate_after is gate_init)) =
       (combined (gate_after (is @ [i]) gate_init) = Some True
        \<and> combined (gate_after is gate_init) \<noteq> Some True)
   \<and> (combined (gate_after (is @ [i]) gate_init) = combined (gate_after is gate_init) \<longrightarrow>
        \<not> snd (active i (gate_after is gate_init)))
   \<and> (combined (gate_after (is @ [i]) gate_init) = Some False \<longrightarrow>
        \<not> snd (active i (gate_after is gate_init)))"
proof -
  have fires: "snd (active i (gate_after is gate_init)) =
       (combined (gate_after (is @ [i]) gate_init) = Some True
        \<and> combined (gate_after is gate_init) \<noteq> Some True)"
    using active_fires [OF gate_after_previous, of i "is"]
    by (simp add: gate_after_snoc active_combined)
  have "combined (gate_after is gate_init) =
     (case latest focus_of is of None \<Rightarrow> None | Some f \<Rightarrow>
      (case latest hover_of is of None \<Rightarrow> None | Some h \<Rightarrow>
       (case latest enabled_of is of None \<Rightarrow> None | Some e \<Rightarrow> Some ((f \<or> h) \<and> e))))"
    using gate_after_latest [of "is"] by (simp add: combined_def cong: option.case_cong)
  with fires show ?thesis by auto
qed

theorem activation_gate_witness:
  "snd (active (Hover True) (gate_after [Focus False, Hover False, Enabled True] gate_init))
   \<and> \<not> snd (active (Hover False)
            (gate_after [Focus False, Hover False, Enabled True, Hover True] gate_init))
   \<and> \<not> snd (active (Focus True)
            (gate_after [Focus False, Hover False, Enabled True, Hover True] gate_init))"
proof -
  have off: "combined (gate_after [Focus False, Hover False, Enabled True] gate_init) =
      Some False"
    and on: "combined (gate_after ([Focus False, Hover False, Enabled True] @ [Hover True])
      gate_init) = Some True"
    and off_again: "combined (gate_after
      ([Focus False, Hover False, Enabled True, Hover True] @ [Hover False]) gate_init) =
      Some False"
    and still_on: "combined (gate_after
      ([Focus False, Hover False, Enabled True, Hover True] @ [Focus True]) gate_init) =
      Some True"
    by code_simp+
  from on have on': "combined (gate_after [Focus False, Hover False, Enabled True, Hover True]
      gate_init) = Some True" by simp
  show ?thesis
    using activation_gate [of "[Focus False, Hover False, Enabled True]" "Hover True",
        THEN conjunct2, THEN conjunct1]
      activation_gate [of "[Focus False, Hover False, Enabled True, Hover True]" "Hover False",
        THEN conjunct2, THEN conjunct1]
      activation_gate [of "[Focus False, Hover False, Enabled True, Hover True]" "Focus True",
        THEN conjunct2, THEN conjunct1]
    unfolding off on off_again still_on on' by simp
qed

section \<open>Preview pipeline: properties\<close>

lemma fetched_append [simp]: "fetched (es @ es') = fetched es @ fetched es'"
  by (induction es rule: fetched.induct) simp_all

lemma aborted_append [simp]: "aborted (es @ es') = aborted es @ aborted es'"
  by (induction es rule: aborted.induct) simp_all

lemma mounted_append [simp]: "mounted (es @ es') = mounted es @ mounted es'"
  by (induction es rule: mounted.induct) simp_all

lemma overlays_append [simp]: "overlays (es @ es') = foldl track (overlays es) es'"
  by (simp add: overlays_def)

lemma invariant_initial: "invariant (initial n)"
  by (simp add: invariant_def initial_def overlays_def)

lemma invariant_buffers:
  "invariant (s\<lparr>sitemaps := ms, actives := k\<rparr>) = invariant s"
  "invariant (s\<lparr>gate := g\<rparr>) = invariant s"
  "invariant (s\<lparr>gate := g, actives := k\<rparr>) = invariant s"
  "invariant (s\<lparr>sitemaps := ms\<rparr>) = invariant s"
  by (simp_all add: invariant_def)

lemma invariant_unmount: "invariant s \<Longrightarrow> invariant (unmount s)"
  by (auto simp: invariant_def unmount_def split: option.splits)

lemma invariant_abort: "invariant s \<Longrightarrow> invariant (abort s)"
  by (auto simp: invariant_def abort_def split: option.splits)

lemma invariant_throw: "invariant s \<Longrightarrow> invariant (throw s)"
  using invariant_abort [OF invariant_unmount, of s]
  by (simp add: throw_def invariant_def)

lemma invariant_start_run: "invariant s \<Longrightarrow> invariant (start_run env m s)"
  by (auto simp: invariant_def start_run_def abort_def Let_def split: option.splits)

lemma invariant_zip_emit: "invariant s \<Longrightarrow> invariant (zip_emit env s)"
  by (auto simp: zip_emit_def invariant_start_run invariant_buffers split: list.splits)

lemma invariant_mount:
  assumes "invariant s" and "request s = Some (r, u)"
  shows "invariant ((unmount (s\<lparr>request := None, sequence := k\<rparr>))
           \<lparr>tooltip := Some (r, els),
            effects := effects (unmount (s\<lparr>request := None, sequence := k\<rparr>)) @ [Mount r]\<rparr>)"
  using assms by (auto simp: invariant_def unmount_def split: option.splits)

lemma invariant_answered:
  "invariant s \<Longrightarrow> invariant (s\<lparr>request := None, sequence := k\<rparr>)"
  by (simp add: invariant_def)

lemma invariant_respond: "invariant s \<Longrightarrow> invariant (respond env doc s)"
  by (auto simp: respond_def Let_def invariant_mount invariant_answered invariant_throw
      split: option.splits sum.splits prod.splits)

lemma invariant_show:
  "invariant s \<Longrightarrow> tooltip s = Some (r, els) \<Longrightarrow> \<not> overlay s \<Longrightarrow>
   invariant (s\<lparr>overlay := True, effects := effects s @ [Append r]\<rparr>)"
  by (auto simp: invariant_def)

lemma invariant_hide:
  "invariant s \<Longrightarrow> tooltip s = Some (r, els) \<Longrightarrow> overlay s \<Longrightarrow>
   invariant (s\<lparr>overlay := False, effects := effects s @ [Remove r]\<rparr>)"
  by (auto simp: invariant_def)

lemma invariant_step: "invariant s \<Longrightarrow> invariant (step env s ev)"
  by (cases ev)
    (auto simp: step_def invariant_zip_emit invariant_buffers invariant_respond
      invariant_show invariant_hide split: prod.splits option.splits)

lemma exec_snoc: "exec env (evs @ [ev]) s = step env (exec env evs s) ev"
  by (simp add: exec_def)

lemma exec_append: "exec env (evs @ evs') s = exec env evs' (exec env evs s)"
  by (simp add: exec_def)

lemma invariant_exec: "invariant s \<Longrightarrow> invariant (exec env evs s)"
  by (induction evs rule: rev_induct) (simp_all add: exec_snoc invariant_step, simp add: exec_def)

lemma inputs_of_append [simp]: "inputs_of (evs @ evs') = inputs_of evs @ inputs_of evs'"
  by (induction evs rule: inputs_of.induct) simp_all

lemma emissions_of_append [simp]:
  "emissions_of (evs @ evs') = emissions_of evs + emissions_of evs'"
  by (induction evs rule: emissions_of.induct) simp_all

lemma start_run_frame:
  "runs (start_run env m s) = runs s + 1"
  "sitemaps (start_run env m s) = sitemaps s"
  "actives (start_run env m s) = actives s"
  "gate (start_run env m s) = gate s"
  "errored (start_run env m s) = errored s"
  by (simp_all add: start_run_def abort_def Let_def split: option.splits)

lemma respond_frame:
  "runs (respond env doc s) = runs s"
  "sitemaps (respond env doc s) = sitemaps s"
  "actives (respond env doc s) = actives s"
  "gate (respond env doc s) = gate s"
  by (simp_all add: respond_def throw_def abort_def unmount_def Let_def
      split: option.splits sum.splits prod.splits)

lemma errored_step: "errored s \<Longrightarrow> step env s ev = s"
  by (simp add: step_def)

lemma errored_exec: "errored s \<Longrightarrow> exec env evs s = s"
  by (induction evs rule: rev_induct) (simp_all add: exec_snoc errored_step, simp add: exec_def)

lemma zip_counts:
  assumes "\<not> errored (step env s ev)"
    and "gate s = gate_after is gate_init"
    and "runs s + length (sitemaps s) = a"
    and "runs s + actives s = activations is gate_init"
    and "sitemaps s = [] \<or> actives s = 0"
  shows "gate (step env s ev) = gate_after (is @ inputs_of [ev]) gate_init
    \<and> runs (step env s ev) + length (sitemaps (step env s ev)) = a + emissions_of [ev]
    \<and> runs (step env s ev) + actives (step env s ev) =
        activations (is @ inputs_of [ev]) gate_init
    \<and> (sitemaps (step env s ev) = [] \<or> actives (step env s ev) = 0)"
proof -
  from assms(1) have live: "\<not> errored s" by (auto simp: errored_step)
  show ?thesis
  proof (cases ev)
    case (Input i)
    obtain g fired where a: "active i (gate s) = (g, fired)" by (cases "active i (gate s)")
    with assms(2-5) live Input show ?thesis
      by (cases "sitemaps s")
        (auto simp: step_def zip_emit_def start_run_frame gate_after_snoc activations_snoc)
  next
    case (Sitemap m)
    with assms(2-5) live show ?thesis
      by (cases "sitemaps s") (auto simp: step_def zip_emit_def start_run_frame)
  next
    case (Response doc)
    with assms(2-5) live show ?thesis by (simp add: step_def respond_frame)
  next
    case Show
    with assms(2-5) live show ?thesis by (auto simp: step_def split: option.splits)
  next
    case Hide
    with assms(2-5) live show ?thesis by (auto simp: step_def split: option.splits)
  qed
qed

lemma exec_counts:
  assumes "\<not> errored (exec env evs (initial n))"
  shows "gate (exec env evs (initial n)) = gate_after (inputs_of evs) gate_init
    \<and> runs (exec env evs (initial n)) + length (sitemaps (exec env evs (initial n))) =
        emissions_of evs
    \<and> runs (exec env evs (initial n)) + actives (exec env evs (initial n)) =
        activations (inputs_of evs) gate_init
    \<and> (sitemaps (exec env evs (initial n)) = [] \<or> actives (exec env evs (initial n)) = 0)"
  using assms
proof (induction evs rule: rev_induct)
  case Nil
  then show ?case by (simp add: exec_def initial_def)
next
  case (snoc ev evs)
  from snoc.prems have live: "\<not> errored (exec env evs (initial n))"
    by (auto simp: exec_snoc errored_step)
  from snoc.prems have "\<not> errored (step env (exec env evs (initial n)) ev)"
    by (simp add: exec_snoc)
  from zip_counts [OF this] snoc.IH [OF live] show ?case
    by (simp add: exec_snoc)
qed

lemma exec_runs:
  assumes "\<not> errored (exec env evs (initial n))"
  shows "runs (exec env evs (initial n)) =
    min (emissions_of evs) (activations (inputs_of evs) gate_init)"
  using exec_counts [OF assms] by auto

lemma fetched_iff: "r \<in> set (fetched es) \<longleftrightarrow> (\<exists>u. Fetch r u \<in> set es)"
  by (induction es rule: fetched.induct) auto

lemma mounted_iff: "r \<in> set (mounted es) \<longleftrightarrow> Mount r \<in> set es"
  by (induction es rule: mounted.induct) auto

lemma aborted_iff: "r \<in> set (aborted es) \<longleftrightarrow> Abort r \<in> set es"
  by (induction es rule: aborted.induct) auto

lemma settled_unmount: "settled r s \<Longrightarrow> settled r (unmount s)"
  by (auto simp: settled_def unmount_def split: option.splits)

lemma settled_abort: "settled r s \<Longrightarrow> settled r (abort s)"
  by (auto simp: settled_def abort_def split: option.splits)

lemma settled_throw: "settled r s \<Longrightarrow> settled r (throw s)"
  using settled_abort [OF settled_unmount, of r s] by (simp add: throw_def settled_def)

lemma settled_start_run: "settled r s \<Longrightarrow> settled r (start_run env m s)"
  by (auto simp: settled_def start_run_def abort_def Let_def split: option.splits)

lemma settled_buffers:
  "settled r (s\<lparr>sitemaps := ms, actives := k\<rparr>) = settled r s"
  "settled r (s\<lparr>gate := g\<rparr>) = settled r s"
  "settled r (s\<lparr>gate := g, actives := k\<rparr>) = settled r s"
  "settled r (s\<lparr>sitemaps := ms\<rparr>) = settled r s"
  by (simp_all add: settled_def)

lemma settled_zip_emit: "settled r s \<Longrightarrow> settled r (zip_emit env s)"
  by (auto simp: zip_emit_def settled_start_run settled_buffers split: list.splits)

lemma settled_answered:
  "settled r s \<Longrightarrow> settled r (s\<lparr>request := None, sequence := k\<rparr>)"
  by (simp add: settled_def)

lemma settled_mount:
  assumes "settled r s" and "request s = Some (r', u)"
  shows "settled r ((unmount (s\<lparr>request := None, sequence := k\<rparr>))
           \<lparr>tooltip := Some (r', els),
            effects := effects (unmount (s\<lparr>request := None, sequence := k\<rparr>)) @ [Mount r']\<rparr>)"
  using assms by (auto simp: settled_def unmount_def split: option.splits)

lemma settled_respond: "settled r s \<Longrightarrow> settled r (respond env doc s)"
  by (auto simp: respond_def Let_def settled_mount settled_answered settled_throw
      split: option.splits sum.splits prod.splits)

lemma settled_step: "settled r s \<Longrightarrow> settled r (step env s ev)"
  by (cases ev)
    (auto simp: step_def settled_zip_emit settled_buffers settled_respond
      split: prod.splits option.splits, auto simp: settled_def)

lemma settled_exec: "settled r s \<Longrightarrow> settled r (exec env evs s)"
  by (induction evs rule: rev_induct) (simp_all add: exec_snoc settled_step, simp add: exec_def)

lemma passed_step: "passed r s \<Longrightarrow> passed r (step env s ev)"
proof -
  assume p: "passed r s"
  then have "settled r s" by (simp add: passed_def settled_def)
  then have s: "settled r (step env s ev)" by (rule settled_step)
  have "set (fetched (effects (step env s ev))) \<subseteq> set (fetched (effects s)) \<union> {runs s}"
    by (cases ev)
      (auto simp: step_def zip_emit_def start_run_def abort_def respond_def throw_def
        unmount_def Let_def split: prod.splits option.splits list.splits sum.splits if_splits)
  with p s show ?thesis by (auto simp: passed_def settled_def)
qed

lemma passed_exec: "passed r s \<Longrightarrow> passed r (exec env evs s)"
  by (induction evs rule: rev_induct) (simp_all add: exec_snoc passed_step, simp add: exec_def)

lemma active_fired: "snd (active i g) \<Longrightarrow> combined (combineLatest i g) = Some True"
  by (cases "combined (combineLatest i g)") (auto simp: active_def Let_def split: if_splits)

lemma quiet_input:
  assumes "\<not> snd (active i (gate s))"
  shows "runs (step env s (Input i)) = runs s
    \<and> effects (step env s (Input i)) = effects s
    \<and> request (step env s (Input i)) = request s
    \<and> tooltip (step env s (Input i)) = tooltip s
    \<and> overlay (step env s (Input i)) = overlay s"
  using assms by (cases "active i (gate s)") (simp add: step_def)

lemma buffered_input:
  assumes "sitemaps s = []"
  shows "runs (step env s (Input i)) = runs s
    \<and> effects (step env s (Input i)) = effects s
    \<and> request (step env s (Input i)) = request s
    \<and> tooltip (step env s (Input i)) = tooltip s
    \<and> overlay (step env s (Input i)) = overlay s"
  using assms by (cases "active i (gate s)") (simp add: step_def zip_emit_def)

lemma buffered_sitemap:
  assumes "actives s = 0"
  shows "runs (step env s (Sitemap m)) = runs s
    \<and> effects (step env s (Sitemap m)) = effects s
    \<and> request (step env s (Sitemap m)) = request s
    \<and> tooltip (step env s (Sitemap m)) = tooltip s
    \<and> overlay (step env s (Sitemap m)) = overlay s"
  using assms by (cases "sitemaps s") (simp_all add: step_def zip_emit_def)

lemma start_run_absent:
  assumes "href ((el_href env)\<lparr>query := None, fragment := None\<rparr>) \<notin> m"
  shows "start_run env m s = s\<lparr>runs := runs s + 1\<rparr>"
  using assms by (simp add: start_run_def sitemap_url_def Let_def)

lemma start_run_present:
  assumes "href ((el_href env)\<lparr>query := None, fragment := None\<rparr>) \<in> m"
  shows "effects (start_run env m s) =
           effects s @ (case request s of None \<Rightarrow> [] | Some (r, u) \<Rightarrow> [Abort r])
           @ [Fetch (runs s) (href ((el_href env)\<lparr>query := None, fragment := None\<rparr>))]"
    and "request (start_run env m s) =
           Some (runs s, (el_href env)\<lparr>query := None, fragment := None\<rparr>)"
  using assms
  by (auto simp: start_run_def sitemap_url_def abort_def Let_def split: option.splits)

lemma start_run_mounted:
  "tooltip (start_run env m s) = tooltip s" "overlay (start_run env m s) = overlay s"
  by (auto simp: start_run_def abort_def Let_def split: option.splits)

lemma paired_step:
  assumes "\<not> errored s" and "sitemaps s = [] \<or> actives s = 0"
    and "(ev = Sitemap m \<and> 0 < actives s)
       \<or> (\<exists>i rest. ev = Input i \<and> snd (active i (gate s)) \<and> sitemaps s = m # rest)"
  shows "\<exists>g ms k. step env s ev = start_run env m (s\<lparr>gate := g, sitemaps := ms, actives := k\<rparr>)"
  using assms(3)
proof
  assume a: "ev = Sitemap m \<and> 0 < actives s"
  with assms(2) have "sitemaps s = []" by simp
  with a assms(1) have "step env s ev =
      start_run env m (s\<lparr>gate := gate s, sitemaps := [], actives := actives s - 1\<rparr>)"
    by (simp add: step_def zip_emit_def)
  then show ?thesis by blast
next
  assume "\<exists>i rest. ev = Input i \<and> snd (active i (gate s)) \<and> sitemaps s = m # rest"
  then obtain i rest where a: "ev = Input i" "snd (active i (gate s))" "sitemaps s = m # rest"
    by blast
  obtain g fired where g: "active i (gate s) = (g, fired)" by (cases "active i (gate s)")
  with a assms(1) have "step env s ev =
      start_run env m (s\<lparr>gate := g, sitemaps := rest, actives := actives s\<rparr>)"
    by (simp add: step_def zip_emit_def)
  then show ?thesis by blast
qed

lemma paired_run:
  assumes "\<not> errored s" and "sitemaps s = [] \<or> actives s = 0"
    and "(ev = Sitemap m \<and> 0 < actives s)
       \<or> (\<exists>i rest. ev = Input i \<and> snd (active i (gate s)) \<and> sitemaps s = m # rest)"
  shows "runs (step env s ev) = runs s + 1
    \<and> tooltip (step env s ev) = tooltip s
    \<and> overlay (step env s ev) = overlay s
    \<and> (href ((el_href env)\<lparr>query := None, fragment := None\<rparr>) \<in> m \<longrightarrow>
          effects (step env s ev) =
            effects s @ (case request s of None \<Rightarrow> [] | Some (r, u) \<Rightarrow> [Abort r])
            @ [Fetch (runs s) (href ((el_href env)\<lparr>query := None, fragment := None\<rparr>))]
        \<and> request (step env s ev) =
            Some (runs s, (el_href env)\<lparr>query := None, fragment := None\<rparr>))
    \<and> (href ((el_href env)\<lparr>query := None, fragment := None\<rparr>) \<notin> m \<longrightarrow>
          effects (step env s ev) = effects s \<and> request (step env s ev) = request s)"
proof -
  from paired_step [OF assms] obtain g ms k
    where "step env s ev = start_run env m (s\<lparr>gate := g, sitemaps := ms, actives := k\<rparr>)"
    by blast
  then show ?thesis
    by (simp add: start_run_frame start_run_mounted start_run_present start_run_absent)
qed

lemma passed_run:
  assumes "invariant s" and "runs (step env s ev) = runs s + 1"
    and "effects (step env s ev) = effects s" and "request (step env s ev) = request s"
  shows "passed (runs s) (exec env evs (step env s ev))"
proof -
  from assms have "passed (runs s) (step env s ev)"
    by (auto simp: invariant_def passed_def)
  then show ?thesis by (rule passed_exec)
qed

text \<open>
  C1, as the code has it. In every state the machine reaches: unless an exception has
  ended the observable, the number of runs started is the smaller of the number of
  emissions of \<open>sitemap$\<close> and the number of emissions of \<open>active$\<close>, since \<open>zip\<close>
  pairs them; no run is fetched for twice or mounted twice, only a run that was
  fetched for is mounted, and a run whose request was dropped is not; a tooltip is
  mounted only once the one before it is unmounted, and its overlay is in the body only
  while it is mounted, one at a time.

  A run starts on an emission of \<open>sitemap$\<close> while an emission of \<open>active$\<close> is
  buffered, and on an emission of \<open>active$\<close> while one of \<open>sitemap$\<close> is buffered,
  with the oldest buffered sitemap. Starting a run leaves the mounted tooltip and its
  overlay as they are. When the sitemap holds the URL of the link without query and
  fragment, the run drops the request in flight, if there is one, and makes its own;
  otherwise it makes no request and leaves the one in flight.

  An emission of \<open>active$\<close> while no emission of \<open>sitemap$\<close> is buffered, and one of
  \<open>sitemap$\<close> while none of \<open>active$\<close> is buffered, start no run and change neither
  the request, nor the tooltip, nor the overlay. The same holds of an input on which
  \<open>active$\<close> does not emit, as is every input after which the link is not active.
  Once an exception has ended the observable, no event changes anything.
\<close>

theorem pipeline_runs:
  assumes "s = exec env evs (initial n)"
  shows "(\<not> errored s \<longrightarrow>
            runs s = min (emissions_of evs) (activations (inputs_of evs) gate_init))
    \<and> distinct (fetched (effects s))
    \<and> distinct (mounted (effects s))
    \<and> set (mounted (effects s)) \<subseteq> set (fetched (effects s))
    \<and> set (aborted (effects s)) \<inter> set (mounted (effects s)) = {}
    \<and> overlays (effects s) = Some (map_option fst (tooltip s), overlay s)
    \<and> (\<forall>ev m.
          \<not> errored s
          \<and> ((ev = Sitemap m \<and> 0 < actives s)
             \<or> (\<exists>i rest. ev = Input i \<and> snd (active i (gate s)) \<and> sitemaps s = m # rest)) \<longrightarrow>
          runs (step env s ev) = runs s + 1
          \<and> tooltip (step env s ev) = tooltip s
          \<and> overlay (step env s ev) = overlay s
          \<and> (href ((el_href env)\<lparr>query := None, fragment := None\<rparr>) \<in> m \<longrightarrow>
                effects (step env s ev) =
                  effects s @ (case request s of None \<Rightarrow> [] | Some (r, u) \<Rightarrow> [Abort r])
                  @ [Fetch (runs s) (href ((el_href env)\<lparr>query := None, fragment := None\<rparr>))]
              \<and> request (step env s ev) =
                  Some (runs s, (el_href env)\<lparr>query := None, fragment := None\<rparr>))
          \<and> (href ((el_href env)\<lparr>query := None, fragment := None\<rparr>) \<notin> m \<longrightarrow>
                effects (step env s ev) = effects s
              \<and> request (step env s ev) = request s))
    \<and> (\<forall>i. sitemaps s = [] \<longrightarrow>
          runs (step env s (Input i)) = runs s
          \<and> effects (step env s (Input i)) = effects s
          \<and> request (step env s (Input i)) = request s
          \<and> tooltip (step env s (Input i)) = tooltip s
          \<and> overlay (step env s (Input i)) = overlay s)
    \<and> (\<forall>m. actives s = 0 \<longrightarrow>
          runs (step env s (Sitemap m)) = runs s
          \<and> effects (step env s (Sitemap m)) = effects s
          \<and> request (step env s (Sitemap m)) = request s
          \<and> tooltip (step env s (Sitemap m)) = tooltip s
          \<and> overlay (step env s (Sitemap m)) = overlay s)
    \<and> (\<forall>i. \<not> snd (active i (gate s)) \<longrightarrow>
          runs (step env s (Input i)) = runs s
          \<and> effects (step env s (Input i)) = effects s
          \<and> request (step env s (Input i)) = request s
          \<and> tooltip (step env s (Input i)) = tooltip s
          \<and> overlay (step env s (Input i)) = overlay s)
    \<and> (\<forall>i. combined (combineLatest i (gate s)) \<noteq> Some True \<longrightarrow>
          \<not> snd (active i (gate s)))
    \<and> (\<forall>ev. errored s \<longrightarrow> step env s ev = s)"
proof -
  have inv: "invariant s"
    unfolding assms by (rule invariant_exec [OF invariant_initial])
  have count: "\<not> errored s \<longrightarrow>
      runs s = min (emissions_of evs) (activations (inputs_of evs) gate_init)"
    unfolding assms by (auto dest: exec_runs)
  from inv have log: "distinct (fetched (effects s))" "distinct (mounted (effects s))"
    "set (mounted (effects s)) \<subseteq> set (fetched (effects s))"
    "set (aborted (effects s)) \<inter> set (mounted (effects s)) = {}"
    "overlays (effects s) = Some (map_option fst (tooltip s), overlay s)"
    by (simp_all add: invariant_def)
  have buffers: "\<not> errored s \<Longrightarrow> sitemaps s = [] \<or> actives s = 0"
    unfolding assms by (auto dest: exec_counts)
  have paired: "runs (step env s ev) = runs s + 1
      \<and> tooltip (step env s ev) = tooltip s
      \<and> overlay (step env s ev) = overlay s
      \<and> (href ((el_href env)\<lparr>query := None, fragment := None\<rparr>) \<in> m \<longrightarrow>
            effects (step env s ev) =
              effects s @ (case request s of None \<Rightarrow> [] | Some (r, u) \<Rightarrow> [Abort r])
              @ [Fetch (runs s) (href ((el_href env)\<lparr>query := None, fragment := None\<rparr>))]
          \<and> request (step env s ev) =
              Some (runs s, (el_href env)\<lparr>query := None, fragment := None\<rparr>))
      \<and> (href ((el_href env)\<lparr>query := None, fragment := None\<rparr>) \<notin> m \<longrightarrow>
            effects (step env s ev) = effects s
          \<and> request (step env s ev) = request s)"
    if "\<not> errored s
          \<and> ((ev = Sitemap m \<and> 0 < actives s)
             \<or> (\<exists>i rest. ev = Input i \<and> snd (active i (gate s)) \<and> sitemaps s = m # rest))"
    for ev m
  proof -
    from that have live: "\<not> errored s"
      and p: "(ev = Sitemap m \<and> 0 < actives s)
        \<or> (\<exists>i rest. ev = Input i \<and> snd (active i (gate s)) \<and> sitemaps s = m # rest)"
      by simp_all
    show ?thesis by (rule paired_run [OF live buffers [OF live] p])
  qed
  have quiet: "\<not> snd (active i (gate s))"
    if "combined (combineLatest i (gate s)) \<noteq> Some True" for i
    using that by (auto dest: active_fired)
  show ?thesis
    apply (intro conjI allI)
    apply (rule count)
    apply (rule log)+
    apply (rule impI, erule paired)
    apply (rule impI, erule buffered_input)
    apply (rule impI, erule buffered_sitemap)
    apply (rule impI, erule quiet_input)
    apply (rule impI, erule quiet)
    apply (rule impI, erule errored_step)
    done
qed

text \<open>
  The claim C1 fails on a link whose page is in the sitemap when \<open>sitemap$\<close> has
  emitted once: the pointer enters, leaves while the request is in flight, and enters
  again; then the document arrives and the tooltip shows. \<open>active$\<close> has emitted
  twice and one run has started; the request was still in flight after the pointer
  left, and the run mounted. With a second emission of \<open>sitemap$\<close> the second run
  starts, and the overlay of the first is in the body while the second request is in
  flight.
\<close>

theorem deactivated_run_mounts_counterexample:
  "activations
     (inputs_of
       [Sitemap ex_sitemap, Input (Focus False), Input (Enabled True), Input (Hover True),
        Input (Hover False), Input (Hover True), Response ex_guide_page, Show])
     gate_init = 2
   \<and> runs (exec ex_env
       [Sitemap ex_sitemap, Input (Focus False), Input (Enabled True), Input (Hover True),
        Input (Hover False), Input (Hover True), Response ex_guide_page, Show]
       (initial 0)) = 1
   \<and> request (exec ex_env
       [Sitemap ex_sitemap, Input (Focus False), Input (Enabled True), Input (Hover True),
        Input (Hover False)]
       (initial 0)) = Some (0, ex_guide\<lparr>fragment := None\<rparr>)
   \<and> effects (exec ex_env
       [Sitemap ex_sitemap, Input (Focus False), Input (Enabled True), Input (Hover True),
        Input (Hover False), Input (Hover True), Response ex_guide_page, Show]
       (initial 0)) = [Fetch 0 ''https://example.com/guide'', Mount 0, Append 0]
   \<and> effects (exec ex_env
       [Sitemap ex_sitemap, Sitemap ex_sitemap, Input (Focus False), Input (Enabled True),
        Input (Hover True), Response ex_guide_page, Show, Input (Hover False),
        Input (Hover True)]
       (initial 0)) =
       [Fetch 0 ''https://example.com/guide'', Mount 0, Append 0,
        Fetch 1 ''https://example.com/guide'']
   \<and> overlay (exec ex_env
       [Sitemap ex_sitemap, Sitemap ex_sitemap, Input (Focus False), Input (Enabled True),
        Input (Hover True), Response ex_guide_page, Show, Input (Hover False),
        Input (Hover True)]
       (initial 0))"
  by code_simp

lemma ex_mounted:
  "\<not> errored (exec ex_env
       [Sitemap ex_sitemap, Sitemap ex_sitemap, Input (Focus False), Input (Enabled True),
        Input (Hover True), Response ex_guide_page, Show, Input (Hover False)]
       (initial 0))"
  "snd (active (Hover True) (gate (exec ex_env
       [Sitemap ex_sitemap, Sitemap ex_sitemap, Input (Focus False), Input (Enabled True),
        Input (Hover True), Response ex_guide_page, Show, Input (Hover False)]
       (initial 0))))"
  "sitemaps (exec ex_env
       [Sitemap ex_sitemap, Sitemap ex_sitemap, Input (Focus False), Input (Enabled True),
        Input (Hover True), Response ex_guide_page, Show, Input (Hover False)]
       (initial 0)) = [ex_sitemap]"
  "href ((el_href ex_env)\<lparr>query := None, fragment := None\<rparr>) \<in> ex_sitemap"
  "runs (exec ex_env
       [Sitemap ex_sitemap, Sitemap ex_sitemap, Input (Focus False), Input (Enabled True),
        Input (Hover True), Response ex_guide_page, Show, Input (Hover False)]
       (initial 0)) = 1"
  "request (exec ex_env
       [Sitemap ex_sitemap, Sitemap ex_sitemap, Input (Focus False), Input (Enabled True),
        Input (Hover True), Response ex_guide_page, Show, Input (Hover False)]
       (initial 0)) = None"
  "effects (exec ex_env
       [Sitemap ex_sitemap, Sitemap ex_sitemap, Input (Focus False), Input (Enabled True),
        Input (Hover True), Response ex_guide_page, Show, Input (Hover False)]
       (initial 0)) = [Fetch 0 ''https://example.com/guide'', Mount 0, Append 0]"
  "tooltip (exec ex_env
       [Sitemap ex_sitemap, Sitemap ex_sitemap, Input (Focus False), Input (Enabled True),
        Input (Hover True), Response ex_guide_page, Show, Input (Hover False)]
       (initial 0)) =
     Some (0, [(\<lparr>tag = ''h3'', classes = [], attributes = []\<rparr>, [Text ''Install'']),
               (\<lparr>tag = ''p'', classes = [], attributes = []\<rparr>, [Text ''Steps''])])"
  "overlay (exec ex_env
       [Sitemap ex_sitemap, Sitemap ex_sitemap, Input (Focus False), Input (Enabled True),
        Input (Hover True), Response ex_guide_page, Show, Input (Hover False)]
       (initial 0))"
  "href ((el_href ex_env)\<lparr>query := None, fragment := None\<rparr>) = ''https://example.com/guide''"
  by code_simp+

theorem pipeline_runs_witness:
  "runs (exec ex_env
       [Sitemap ex_sitemap, Sitemap ex_sitemap, Input (Focus False), Input (Enabled True),
        Input (Hover True), Response ex_guide_page, Show, Input (Hover False)]
       (initial 0)) =
     min (emissions_of
       [Sitemap ex_sitemap, Sitemap ex_sitemap, Input (Focus False), Input (Enabled True),
        Input (Hover True), Response ex_guide_page, Show, Input (Hover False)])
      (activations (inputs_of
       [Sitemap ex_sitemap, Sitemap ex_sitemap, Input (Focus False), Input (Enabled True),
        Input (Hover True), Response ex_guide_page, Show, Input (Hover False)]) gate_init)
   \<and> overlays [Fetch 0 ''https://example.com/guide'', Mount 0, Append 0] =
       Some (Some 0, True)
   \<and> runs (step ex_env (exec ex_env
       [Sitemap ex_sitemap, Sitemap ex_sitemap, Input (Focus False), Input (Enabled True),
        Input (Hover True), Response ex_guide_page, Show, Input (Hover False)]
       (initial 0)) (Input (Hover True))) = 2
   \<and> tooltip (step ex_env (exec ex_env
       [Sitemap ex_sitemap, Sitemap ex_sitemap, Input (Focus False), Input (Enabled True),
        Input (Hover True), Response ex_guide_page, Show, Input (Hover False)]
       (initial 0)) (Input (Hover True))) =
       Some (0, [(\<lparr>tag = ''h3'', classes = [], attributes = []\<rparr>, [Text ''Install'']),
                 (\<lparr>tag = ''p'', classes = [], attributes = []\<rparr>, [Text ''Steps''])])
   \<and> overlay (step ex_env (exec ex_env
       [Sitemap ex_sitemap, Sitemap ex_sitemap, Input (Focus False), Input (Enabled True),
        Input (Hover True), Response ex_guide_page, Show, Input (Hover False)]
       (initial 0)) (Input (Hover True)))
   \<and> effects (step ex_env (exec ex_env
       [Sitemap ex_sitemap, Sitemap ex_sitemap, Input (Focus False), Input (Enabled True),
        Input (Hover True), Response ex_guide_page, Show, Input (Hover False)]
       (initial 0)) (Input (Hover True))) =
       [Fetch 0 ''https://example.com/guide'', Mount 0, Append 0,
        Fetch 1 ''https://example.com/guide'']"
proof -
  let ?evs = "[Sitemap ex_sitemap, Sitemap ex_sitemap, Input (Focus False),
        Input (Enabled True), Input (Hover True), Response ex_guide_page, Show,
        Input (Hover False)]"
  let ?s = "exec ex_env ?evs (initial 0)"
  note w = pipeline_runs [OF refl, of ex_env ?evs 0]
  from w ex_mounted(1) have count: "runs ?s =
      min (emissions_of ?evs) (activations (inputs_of ?evs) gate_init)"
    by blast
  from w have "overlays (effects ?s) = Some (map_option fst (tooltip ?s), overlay ?s)"
    by blast
  then have track: "overlays [Fetch 0 ''https://example.com/guide'', Mount 0, Append 0] =
      Some (Some 0, True)"
    by (simp add: ex_mounted)
  have "\<not> errored ?s
      \<and> ((Input (Hover True) = Sitemap ex_sitemap \<and> 0 < actives ?s)
         \<or> (\<exists>i rest. Input (Hover True) = Input i \<and> snd (active i (gate ?s))
              \<and> sitemaps ?s = ex_sitemap # rest))"
    using ex_mounted(1-3) by simp
  with w have "runs (step ex_env ?s (Input (Hover True))) = runs ?s + 1
      \<and> tooltip (step ex_env ?s (Input (Hover True))) = tooltip ?s
      \<and> overlay (step ex_env ?s (Input (Hover True))) = overlay ?s
      \<and> (href ((el_href ex_env)\<lparr>query := None, fragment := None\<rparr>) \<in> ex_sitemap \<longrightarrow>
            effects (step ex_env ?s (Input (Hover True))) =
              effects ?s @ (case request ?s of None \<Rightarrow> [] | Some (r, u) \<Rightarrow> [Abort r])
              @ [Fetch (runs ?s) (href ((el_href ex_env)\<lparr>query := None, fragment := None\<rparr>))]
          \<and> request (step ex_env ?s (Input (Hover True))) =
              Some (runs ?s, (el_href ex_env)\<lparr>query := None, fragment := None\<rparr>))"
    by blast
  then have "runs (step ex_env ?s (Input (Hover True))) = 2"
    and "tooltip (step ex_env ?s (Input (Hover True))) =
       Some (0, [(\<lparr>tag = ''h3'', classes = [], attributes = []\<rparr>, [Text ''Install'']),
                 (\<lparr>tag = ''p'', classes = [], attributes = []\<rparr>, [Text ''Steps''])])"
    and "overlay (step ex_env ?s (Input (Hover True)))"
    and "effects (step ex_env ?s (Input (Hover True))) =
       [Fetch 0 ''https://example.com/guide'', Mount 0, Append 0,
        Fetch 1 ''https://example.com/guide'']"
    using ex_mounted(4) by (simp_all add: ex_mounted(5-10))
  with count track show ?thesis by blast
qed

text \<open>
  C6. When a run starts, the URL that is looked up in the sitemap paired with it is
  that of the link without its query and fragment. When the sitemap does not hold it,
  the first \<open>switchMap\<close> yields nothing: the run is counted and changes nothing else,
  so no request is made and nothing is mounted; and whatever happens later, no request
  is ever made and no tooltip is ever mounted for that run. When the sitemap holds it,
  it is the URL that is fetched.
\<close>

theorem absent_from_sitemap:
  assumes "s = exec env evs0 (initial n)" and "\<not> errored s"
    and "(ev = Sitemap m \<and> 0 < actives s)
       \<or> (\<exists>i rest. ev = Input i \<and> snd (active i (gate s)) \<and> sitemaps s = m # rest)"
  shows "href ((el_href env)\<lparr>query := None, fragment := None\<rparr>) = location (el_href env)
    \<and> runs (step env s ev) = runs s + 1
    \<and> (href ((el_href env)\<lparr>query := None, fragment := None\<rparr>) \<notin> m \<longrightarrow>
          effects (step env s ev) = effects s
        \<and> request (step env s ev) = request s
        \<and> tooltip (step env s ev) = tooltip s
        \<and> overlay (step env s ev) = overlay s
        \<and> (\<forall>evs u. Fetch (runs s) u \<notin> set (effects (exec env evs (step env s ev)))
                  \<and> Mount (runs s) \<notin> set (effects (exec env evs (step env s ev)))))
    \<and> (href ((el_href env)\<lparr>query := None, fragment := None\<rparr>) \<in> m \<longrightarrow>
          effects (step env s ev) =
            effects s @ (case request s of None \<Rightarrow> [] | Some (r, u) \<Rightarrow> [Abort r])
            @ [Fetch (runs s) (location (el_href env))]
        \<and> request (step env s ev) =
            Some (runs s, (el_href env)\<lparr>query := None, fragment := None\<rparr>))"
proof -
  have norm: "href ((el_href env)\<lparr>query := None, fragment := None\<rparr>) = location (el_href env)"
    by (simp add: href_def)
  have inv: "invariant s"
    unfolding assms(1) by (rule invariant_exec [OF invariant_initial])
  have "sitemaps s = [] \<or> actives s = 0"
    using assms(2) unfolding assms(1) by (auto dest: exec_counts)
  note run = paired_run [OF assms(2) this assms(3), of env]
  have later: "Fetch (runs s) u \<notin> set (effects (exec env evs (step env s ev)))
      \<and> Mount (runs s) \<notin> set (effects (exec env evs (step env s ev)))"
    if "href ((el_href env)\<lparr>query := None, fragment := None\<rparr>) \<notin> m" for evs u
  proof -
    from that run have "passed (runs s) (exec env evs (step env s ev))"
      by (intro passed_run [OF inv]) simp_all
    then show ?thesis by (auto simp: passed_def fetched_iff mounted_iff)
  qed
  from norm run later show ?thesis by simp
qed

lemma ex_absent:
  "\<not> errored (exec ex_env
       [Input (Focus False), Input (Enabled True), Sitemap {''https://example.com/''}]
       (initial 0))"
  "snd (active (Hover True) (gate (exec ex_env
       [Input (Focus False), Input (Enabled True), Sitemap {''https://example.com/''}]
       (initial 0))))"
  "sitemaps (exec ex_env
       [Input (Focus False), Input (Enabled True), Sitemap {''https://example.com/''}]
       (initial 0)) = [{''https://example.com/''}]"
  "href ((el_href ex_env)\<lparr>query := None, fragment := None\<rparr>) \<notin> {''https://example.com/''}"
  "runs (exec ex_env
       [Input (Focus False), Input (Enabled True), Sitemap {''https://example.com/''}]
       (initial 0)) = 0"
  "effects (exec ex_env
       [Input (Focus False), Input (Enabled True), Sitemap {''https://example.com/''}]
       (initial 0)) = []"
  by code_simp+

theorem absent_from_sitemap_witness:
  "runs (step ex_env (exec ex_env
       [Input (Focus False), Input (Enabled True), Sitemap {''https://example.com/''}]
       (initial 0)) (Input (Hover True))) = 1
   \<and> effects (step ex_env (exec ex_env
       [Input (Focus False), Input (Enabled True), Sitemap {''https://example.com/''}]
       (initial 0)) (Input (Hover True))) = []
   \<and> Fetch 0 ''https://example.com/guide'' \<notin>
       set (effects (exec ex_env [Response ex_guide_page, Show]
         (step ex_env (exec ex_env
           [Input (Focus False), Input (Enabled True), Sitemap {''https://example.com/''}]
           (initial 0)) (Input (Hover True)))))
   \<and> Mount 0 \<notin>
       set (effects (exec ex_env [Response ex_guide_page, Show]
         (step ex_env (exec ex_env
           [Input (Focus False), Input (Enabled True), Sitemap {''https://example.com/''}]
           (initial 0)) (Input (Hover True)))))"
proof -
  let ?evs = "[Input (Focus False), Input (Enabled True), Sitemap {''https://example.com/''}]"
  let ?s = "exec ex_env ?evs (initial 0)"
  have paired: "(Input (Hover True) = Sitemap {''https://example.com/''} \<and> 0 < actives ?s)
      \<or> (\<exists>i rest. Input (Hover True) = Input i \<and> snd (active i (gate ?s))
           \<and> sitemaps ?s = {''https://example.com/''} # rest)"
    using ex_absent(2,3) by simp
  note w = absent_from_sitemap [OF refl ex_absent(1) paired]
  from w ex_absent(4) have "runs (step ex_env ?s (Input (Hover True))) = runs ?s + 1"
    and "effects (step ex_env ?s (Input (Hover True))) = effects ?s"
    and "Fetch (runs ?s) ''https://example.com/guide'' \<notin>
       set (effects (exec ex_env [Response ex_guide_page, Show]
         (step ex_env ?s (Input (Hover True)))))"
    and "Mount (runs ?s) \<notin>
       set (effects (exec ex_env [Response ex_guide_page, Show]
         (step ex_env ?s (Input (Hover True)))))"
    by blast+
  then show ?thesis by (simp add: ex_absent(5,6))
qed

lemma respond_single:
  assumes "request s = Some (r, u)"
    and "resolve (parser env) (property env) doc (href u) (sequence s) = (Inr d, k)"
    and "selector_of (decoder env) (el_href env) = Inr sel"
    and "getOptionalElement sel d = Some t'"
    and "extract_els t' = Inr [x]"
  shows "respond env doc s = s\<lparr>request := None, sequence := k\<rparr>"
  using assms by (simp add: respond_def preview_elements_def Let_def)

text \<open>
  C7. For a heading that is followed at once by another heading and whose parent, if it
  has one, does not carry the class \<open>doc\<close>, \<open>extract\<close> returns the synthesized
  heading and nothing else. And whenever the extraction for the document of the request
  in flight returns a single element, the pipeline only forgets the request (and keeps
  the counter that \<open>resolve\<close> advanced): the mounted tooltip and the effects are as
  they were, and whatever happens later no tooltip is ever mounted for that run.
\<close>

theorem heading_then_heading:
  assumes "instanceof_HTMLHeadingElement (headline t)"
    and "nextSiblings t = h # rest"
    and "instanceof_HTMLHeadingElement h"
    and "\<forall>p ps. parentElement t = Some (p, ps) \<longrightarrow> \<not> classList_contains ''doc'' p"
  shows "extract_els t = Inr [newHeading (headline t)]
    \<and> (\<forall>env doc s r u d k sel t' x.
          \<not> errored s \<and> request s = Some (r, u)
          \<and> resolve (parser env) (property env) doc (href u) (sequence s) = (Inr d, k)
          \<and> selector_of (decoder env) (el_href env) = Inr sel
          \<and> getOptionalElement sel d = Some t'
          \<and> extract_els t' = Inr [x] \<longrightarrow>
          step env s (Response doc) = s\<lparr>request := None, sequence := k\<rparr>
          \<and> (\<forall>evs0 n evs. s = exec env evs0 (initial n) \<longrightarrow>
                Mount r \<notin> set (effects (exec env evs (step env s (Response doc))))))"
proof (intro conjI allI impI)
  from assms(1) have "\<not> bare_anchor (headline t)" by (rule heading_not_anchor)
  with assms(2-4) show "extract_els t = Inr [newHeading (headline t)]"
    by (cases "parentElement t") (auto simp: extract_els_def default_predicate_def)
next
  fix env :: environment and s :: pipeline and doc r u d k sel t' x
  assume a: "\<not> errored s \<and> request s = Some (r, u)
          \<and> resolve (parser env) (property env) doc (href u) (sequence s) = (Inr d, k)
          \<and> selector_of (decoder env) (el_href env) = Inr sel
          \<and> getOptionalElement sel d = Some t'
          \<and> extract_els t' = Inr [x]"
  then have "respond env doc s = s\<lparr>request := None, sequence := k\<rparr>"
    using respond_single [of s r u env doc d k sel t' x] by simp
  with a show step: "step env s (Response doc) = s\<lparr>request := None, sequence := k\<rparr>"
    by (simp add: step_def)
  fix evs0 n evs
  assume s: "s = exec env evs0 (initial n)"
  have "invariant s" unfolding s by (rule invariant_exec [OF invariant_initial])
  with a have "settled r (s\<lparr>request := None, sequence := k\<rparr>)"
    by (auto simp: invariant_def settled_def)
  then have "settled r (exec env evs (step env s (Response doc)))"
    unfolding step by (rule settled_exec)
  then show "Mount r \<notin> set (effects (exec env evs (step env s (Response doc))))"
    by (simp add: settled_def mounted_iff)
qed

lemma ex_headings_extract:
  "getOptionalElement (ArticleId ''install'') ex_headings_page =
     Some \<lparr>headline = (\<lparr>tag = ''h2'', classes = [], attributes = [(''id'', ''install'')]\<rparr>,
                        [Text ''Install'']),
           nextSiblings = [(\<lparr>tag = ''h2'', classes = [], attributes = [(''id'', ''next'')]\<rparr>,
                            [Text ''Next''])],
           parentElement = Some ((\<lparr>tag = ''article'', classes = [], attributes = []\<rparr>,
             [Element \<lparr>tag = ''h2'', classes = [], attributes = [(''id'', ''install'')]\<rparr>
                [Text ''Install''],
              Element \<lparr>tag = ''h2'', classes = [], attributes = [(''id'', ''next'')]\<rparr>
                [Text ''Next'']]), [])\<rparr>"
  by code_simp

lemma ex_headings_request:
  "exec ex_env [Sitemap ex_sitemap, Input (Focus False), Input (Enabled True),
      Input (Hover True)] (initial 0) =
   \<lparr>gate = \<lparr>focus = Some False, hover = Some True, enabled = Some True,
             previous = Some True\<rparr>,
    sitemaps = [], actives = 0, runs = 1,
    request = Some (0, ex_guide\<lparr>fragment := None\<rparr>),
    tooltip = None, overlay = False, sequence = 0, errored = False,
    effects = [Fetch 0 ''https://example.com/guide'']\<rparr>"
  by code_simp

lemma ex_headings_resolve:
  "resolve ex_new_URL ex_assign ex_headings_page ''https://example.com/guide'' 0 =
     (Inr ex_headings_page, 1)"
  by code_simp

theorem heading_then_heading_witness:
  "extract_els
     \<lparr>headline = (\<lparr>tag = ''h2'', classes = [], attributes = [(''id'', ''install'')]\<rparr>,
                  [Text ''Install'']),
      nextSiblings = [(\<lparr>tag = ''h2'', classes = [], attributes = [(''id'', ''next'')]\<rparr>,
                       [Text ''Next''])],
      parentElement = Some ((\<lparr>tag = ''article'', classes = [], attributes = []\<rparr>,
        [Element \<lparr>tag = ''h2'', classes = [], attributes = [(''id'', ''install'')]\<rparr>
           [Text ''Install''],
         Element \<lparr>tag = ''h2'', classes = [], attributes = [(''id'', ''next'')]\<rparr>
           [Text ''Next'']]), [])\<rparr> =
     Inr [(\<lparr>tag = ''h3'', classes = [], attributes = []\<rparr>, [Text ''Install''])]
   \<and> effects (exec ex_env [Sitemap ex_sitemap, Input (Focus False), Input (Enabled True),
      Input (Hover True), Response ex_headings_page] (initial 0)) =
       [Fetch 0 ''https://example.com/guide'']
   \<and> tooltip (exec ex_env [Sitemap ex_sitemap, Input (Focus False), Input (Enabled True),
      Input (Hover True), Response ex_headings_page] (initial 0)) = None"
proof -
  let ?t = "\<lparr>headline = (\<lparr>tag = ''h2'', classes = [], attributes = [(''id'', ''install'')]\<rparr>,
                  [Text ''Install'']),
      nextSiblings = [(\<lparr>tag = ''h2'', classes = [], attributes = [(''id'', ''next'')]\<rparr>,
                       [Text ''Next''])],
      parentElement = Some ((\<lparr>tag = ''article'', classes = [], attributes = []\<rparr>,
        [Element \<lparr>tag = ''h2'', classes = [], attributes = [(''id'', ''install'')]\<rparr>
           [Text ''Install''],
         Element \<lparr>tag = ''h2'', classes = [], attributes = [(''id'', ''next'')]\<rparr>
           [Text ''Next'']]), [])\<rparr>"
  let ?s = "exec ex_env [Sitemap ex_sitemap, Input (Focus False), Input (Enabled True),
      Input (Hover True)] (initial 0)"
  have w: "extract_els ?t = Inr [newHeading (headline ?t)]
    \<and> (\<forall>env doc s r u d k sel t' x.
          \<not> errored s \<and> request s = Some (r, u)
          \<and> resolve (parser env) (property env) doc (href u) (sequence s) = (Inr d, k)
          \<and> selector_of (decoder env) (el_href env) = Inr sel
          \<and> getOptionalElement sel d = Some t'
          \<and> extract_els t' = Inr [x] \<longrightarrow>
          step env s (Response doc) = s\<lparr>request := None, sequence := k\<rparr>
          \<and> (\<forall>evs0 n evs. s = exec env evs0 (initial n) \<longrightarrow>
                Mount r \<notin> set (effects (exec env evs (step env s (Response doc))))))"
    by (rule heading_then_heading
          [where h = "(\<lparr>tag = ''h2'', classes = [], attributes = [(''id'', ''next'')]\<rparr>,
                       [Text ''Next''])" and rest = "[]"])
      (simp_all add: instanceof_HTMLHeadingElement_def classList_contains_def)
  then have single: "extract_els ?t = Inr [newHeading (headline ?t)]" by blast
  have sel: "selector_of (decoder ex_env) (el_href ex_env) = Inr (ArticleId ''install'')"
    by (simp add: selector_of_def ex_env_def ex_guide_def hash_def)
  have "step ex_env ?s (Response ex_headings_page) = ?s\<lparr>request := None, sequence := 1\<rparr>"
    by (rule w [THEN conjunct2, rule_format, THEN conjunct1,
          of ?s 0 "ex_guide\<lparr>fragment := None\<rparr>" ex_env ex_headings_page ex_headings_page 1
             "ArticleId ''install''" ?t "newHeading (headline ?t)"])
      (simp add: ex_headings_request sel ex_headings_extract single,
       simp add: ex_env_def ex_guide_def href_def ex_headings_resolve)
  then have "exec ex_env ([Sitemap ex_sitemap, Input (Focus False), Input (Enabled True),
      Input (Hover True)] @ [Response ex_headings_page]) (initial 0) =
      ?s\<lparr>request := None, sequence := 1\<rparr>"
    by (simp only: exec_snoc)
  then show ?thesis using single
    by (simp add: ex_headings_request newHeading_def)
qed

end
